theory Spec2Isabelle
  imports Main "HOL-Library.Sublist"
begin

section \<open>Data model (src/types.ts)\<close>

text \<open>
  The tab and time-range unions of the dashboard and the repository records of
  \<^verbatim>\<open>types.ts\<close>. JavaScript numbers that carry identifiers, counters and epoch
  milliseconds are integers; \<^verbatim>\<open>string | null\<close> is an option. The field \<^verbatim>\<open>id\<close> is
  called \<open>repo_id\<close> here because \<open>id\<close> is the identity function of HOL.
\<close>

datatype TabType = Trending | Latest | Saved

datatype TimeRange = Today | Week | Month

record Owner =
  login :: string
  avatar_url :: string

record GithubRepo =
  repo_id :: int
  name :: string
  full_name :: string
  description :: "string option"
  html_url :: string
  stargazers_count :: int
  forks_count :: int
  language :: "string option"
  owner :: Owner
  created_at :: string
  updated_at :: string
  watchers_count :: int
  open_issues_count :: int
  topics :: "string list"

text \<open>\<^verbatim>\<open>interface SavedRepo extends GithubRepo { savedAt: number }\<close>\<close>

record SavedRepo = GithubRepo +
  savedAt :: int

text \<open>
  \<^verbatim>\<open>{ ...repo, savedAt: t }\<close> builds a saved entry from a repository; reading a saved
  entry at the type \<^verbatim>\<open>GithubRepo\<close> forgets the extra field.
\<close>

definition withSavedAt :: "GithubRepo \<Rightarrow> int \<Rightarrow> SavedRepo" where
  "withSavedAt repo t = GithubRepo.extend repo (SavedRepo.fields t)"

definition asGithubRepo :: "SavedRepo \<Rightarrow> GithubRepo" where
  "asGithubRepo r = GithubRepo.truncate r"

section \<open>Strings\<close>

text \<open>
  \<^verbatim>\<open>String.prototype.toLowerCase\<close> and \<^verbatim>\<open>String.prototype.includes\<close> (substring
  test; every string includes the empty string). The strings of the model are ASCII text:
  \<open>toLowerCase\<close> lowers the letters A to Z and leaves every other character, where the
  platform also maps letters beyond ASCII.
\<close>

definition lowerChar :: "char \<Rightarrow> char" where
  "lowerChar c =
     (case map_of (zip ''ABCDEFGHIJKLMNOPQRSTUVWXYZ'' ''abcdefghijklmnopqrstuvwxyz'') c of
        Some l \<Rightarrow> l
      | None \<Rightarrow> c)"

definition toLowerCase :: "string \<Rightarrow> string" where
  "toLowerCase s = map lowerChar s"

fun includes_str :: "string \<Rightarrow> string \<Rightarrow> bool" where
  "includes_str [] q = (q = [])"
| "includes_str (c # cs) q = (prefix q (c # cs) \<or> includes_str cs q)"

text \<open>
  \<^verbatim>\<open>String.prototype.trim\<close> on ASCII text: it strips space, tab, line feed, vertical
  tab, form feed and carriage return, where the platform also strips the white space
  beyond ASCII.
\<close>

definition isWhitespace :: "char \<Rightarrow> bool" where
  "isWhitespace c = (c \<in> set [CHR '' '', CHR 0x09, CHR 0x0A, CHR 0x0B, CHR 0x0C, CHR 0x0D])"

definition trim :: "string \<Rightarrow> string" where
  "trim s = rev (dropWhile isWhitespace (rev (dropWhile isWhitespace s)))"

text \<open>A non-negative number inside a template literal: its decimal digits.\<close>

definition digitChar :: "nat \<Rightarrow> char" where
  "digitChar d = ''0123456789'' ! d"

fun showNat :: "nat \<Rightarrow> string" where
  "showNat n = (if n < 10 then [digitChar n] else showNat (n div 10) @ [digitChar (n mod 10)])"

declare showNat.simps [simp del]

section \<open>View composition (src/App.tsx, filteredRepos)\<close>

text \<open>
  The \<^verbatim>\<open>useMemo\<close> body of \<^verbatim>\<open>filteredRepos\<close>, branch by branch. The source sequence
  has the static type \<^verbatim>\<open>GithubRepo[]\<close>, so saved entries are read as repositories.
  \<^verbatim>\<open>r.description?.toLowerCase().includes(q)\<close> is \<^verbatim>\<open>undefined\<close> (falsy) on a null
  description.
\<close>

definition filteredRepos ::
  "TabType \<Rightarrow> GithubRepo list \<Rightarrow> SavedRepo list \<Rightarrow> string \<Rightarrow> int list option \<Rightarrow> bool \<Rightarrow> bool
     \<Rightarrow> GithubRepo list" where
  "filteredRepos activeTab repos savedRepos searchQuery aiFilteredIds isSmartFilterMode isAiFiltering =
     (let source = (if activeTab = Saved then map asGithubRepo savedRepos else repos);
          result = (case aiFilteredIds of
                      None \<Rightarrow> source
                    | Some ids \<Rightarrow> filter (\<lambda>r. repo_id r \<in> set ids) source)
      in if searchQuery = [] then result
         else if isSmartFilterMode \<and> aiFilteredIds = None \<and> \<not> isAiFiltering then result
         else if isSmartFilterMode \<and> aiFilteredIds \<noteq> None then result
         else filter (\<lambda>r.
                includes_str (toLowerCase (name r)) (toLowerCase searchQuery)
              \<or> includes_str (toLowerCase (login (owner r))) (toLowerCase searchQuery)
              \<or> (case description r of
                    None \<Rightarrow> False
                  | Some d \<Rightarrow> includes_str (toLowerCase d) (toLowerCase searchQuery))) result)"

text \<open>
  The memo of the same name in the repository's entry-point variant (src/Dockerfile, lines
  514 to 530), kept here for comparison. It skips the text filter whenever smart mode is
  on, trims the query, and looks for it in name, owner login, description, language and
  every topic.
\<close>

definition filteredRepos_entry ::
  "TabType \<Rightarrow> GithubRepo list \<Rightarrow> SavedRepo list \<Rightarrow> string \<Rightarrow> int list option \<Rightarrow> bool
     \<Rightarrow> GithubRepo list" where
  "filteredRepos_entry activeTab repos savedRepos searchQuery aiFilteredIds isSmartFilterMode =
     (let res0 = (if activeTab = Saved then map asGithubRepo savedRepos else repos);
          res = (case aiFilteredIds of
                   None \<Rightarrow> res0
                 | Some ids \<Rightarrow> filter (\<lambda>r. repo_id r \<in> set ids) res0)
      in if searchQuery = [] \<or> isSmartFilterMode then res
         else (let query = toLowerCase (trim searchQuery)
               in if query = [] then res
                  else filter (\<lambda>r. list_ex (\<lambda>v. includes_str (toLowerCase v) query)
                                  ([name r, login (owner r),
                                    (case description r of None \<Rightarrow> [] | Some d \<Rightarrow> d),
                                    (case language r of None \<Rightarrow> [] | Some l \<Rightarrow> l)]
                                   @ topics r)) res))"

subsection \<open>Notions used to state the properties of the view\<close>

definition viewSource :: "TabType \<Rightarrow> GithubRepo list \<Rightarrow> SavedRepo list \<Rightarrow> GithubRepo list" where
  "viewSource activeTab repos savedRepos =
     (if activeTab = Saved then map asGithubRepo savedRepos else repos)"

definition aiFiltered :: "int list option \<Rightarrow> GithubRepo list \<Rightarrow> GithubRepo list" where
  "aiFiltered aiFilteredIds source =
     (case aiFilteredIds of None \<Rightarrow> source | Some ids \<Rightarrow> filter (\<lambda>r. repo_id r \<in> set ids) source)"

text \<open>Case-insensitive substring test of a query against one text.\<close>

definition matchesText :: "string \<Rightarrow> string \<Rightarrow> bool" where
  "matchesText q t = includes_str (toLowerCase t) (toLowerCase q)"

text \<open>The three fields the keyword filter of \<^verbatim>\<open>App.tsx\<close> looks at.\<close>

definition keywordMatch :: "string \<Rightarrow> GithubRepo \<Rightarrow> bool" where
  "keywordMatch q r =
     (matchesText q (name r) \<or> matchesText q (login (owner r))
      \<or> (case description r of None \<Rightarrow> False | Some d \<Rightarrow> matchesText q d))"

text \<open>
  The specification's wording of the keyword filter: name, owner login, description,
  primary language, or any topic.
\<close>

definition spec_keywordMatch :: "string \<Rightarrow> GithubRepo \<Rightarrow> bool" where
  "spec_keywordMatch q r =
     (matchesText q (name r) \<or> matchesText q (login (owner r))
      \<or> (case description r of None \<Rightarrow> False | Some d \<Rightarrow> matchesText q d)
      \<or> (case language r of None \<Rightarrow> False | Some l \<Rightarrow> matchesText q l)
      \<or> list_ex (matchesText q) (topics r))"

text \<open>
  The specification's wording of when text filtering is skipped for a non-empty query:
  smart mode with a non-null result, or smart mode with a null result while an AI filter
  request is in flight.
\<close>

definition spec_textFilterSkipped :: "bool \<Rightarrow> int list option \<Rightarrow> bool \<Rightarrow> bool" where
  "spec_textFilterSkipped isSmartMode smartFilterResult aiInFlight =
     ((isSmartMode \<and> smartFilterResult \<noteq> None)
      \<or> (isSmartMode \<and> smartFilterResult = None \<and> aiInFlight))"

text \<open>A sample repository for concrete evaluations.\<close>

definition sampleRepo :: "int \<Rightarrow> string \<Rightarrow> GithubRepo" where
  "sampleRepo i n =
     \<lparr> repo_id = i, name = n, full_name = ''acme/'' @ n, description = None,
       html_url = [], stargazers_count = 0, forks_count = 0, language = Some ''Rust'',
       owner = \<lparr> login = ''acme'', avatar_url = [] \<rparr>, created_at = [], updated_at = [],
       watchers_count = 0, open_issues_count = 0, topics = [''kubernetes''] \<rparr>"

text \<open>A full page of the search API: thirty repositories, identifiers 1 to 30.\<close>

definition samplePage :: "GithubRepo list" where
  "samplePage = map (\<lambda>n. sampleRepo (int n) ''r'') [1..<31]"

section \<open>Application state (src/App.tsx, App)\<close>

datatype ToastType = Success | Info | Error

record Toast =
  toast_id :: int
  message :: string
  toast_type :: ToastType

text \<open>
  The \<^verbatim>\<open>useState\<close> cells of \<^verbatim>\<open>App\<close>, with their initial values in \<open>initialState\<close>.
  The last field is not React state: it collects what the component writes with
  \<^verbatim>\<open>console.error\<close>, the only other place a failure could be recorded.
\<close>

record AppState =
  activeTab :: TabType
  activeRange :: TimeRange
  repos :: "GithubRepo list"
  savedRepos :: "SavedRepo list"
  isLoading :: bool
  isFetchingMore :: bool
  page :: int
  hasMore :: bool
  searchQuery :: string
  isSearchFocused :: bool
  isSmartFilterMode :: bool
  isAiFiltering :: bool
  aiFilteredIds :: "int list option"
  selectedRepo :: "GithubRepo option"
  toasts :: "Toast list"
  consoleErrors :: "string list"

definition initialState :: AppState where
  "initialState =
     \<lparr> activeTab = Trending, activeRange = Week, repos = [], savedRepos = [],
       isLoading = False, isFetchingMore = False, page = 1, hasMore = True,
       searchQuery = [], isSearchFocused = False, isSmartFilterMode = False,
       isAiFiltering = False, aiFilteredIds = None, selectedRepo = None, toasts = [],
       consoleErrors = [] \<rparr>"

text \<open>\<^verbatim>\<open>addToast(message, type)\<close>; the toast identifier is \<^verbatim>\<open>Date.now()\<close>, passed in.\<close>

definition addToast :: "string \<Rightarrow> ToastType \<Rightarrow> int \<Rightarrow> AppState \<Rightarrow> AppState" where
  "addToast m t now st =
     st\<lparr>toasts := toasts st @ [\<lparr> toast_id = now, message = m, toast_type = t \<rparr>]\<rparr>"

section \<open>Durable save store (src/App.tsx, localStorage effects)\<close>

datatype error = SyntaxError

text \<open>
  The mount effect that reads \<^verbatim>\<open>localStorage.getItem("gitglance_saved")\<close>. The stored
  record is \<^verbatim>\<open>null\<close> when absent; \<^verbatim>\<open>if (saved)\<close> also skips the empty string.
  \<^verbatim>\<open>JSON.parse\<close> is the platform's parser, taken as a parameter: \<open>None\<close> is the
  \<^verbatim>\<open>SyntaxError\<close> it throws on text that is not JSON. The effect has no
  \<^verbatim>\<open>try\<close>, so that exception leaves the effect.
\<close>

definition loadSavedEffect ::
  "(string \<Rightarrow> SavedRepo list option) \<Rightarrow> string option \<Rightarrow> AppState \<Rightarrow> error + AppState" where
  "loadSavedEffect JSON_parse saved st =
     (case saved of
        None \<Rightarrow> Inr st
      | Some text \<Rightarrow>
          if text = [] then Inr st
          else (case JSON_parse text of
                  None \<Rightarrow> Inl SyntaxError
                | Some parsed \<Rightarrow> Inr (st\<lparr>savedRepos := parsed\<rparr>)))"

text \<open>
  One reading of \<^verbatim>\<open>JSON.parse\<close>, for concrete evaluations: the stored text that lists
  repository 7 twice, saved at 100 and at 150; every other text is rejected.
\<close>

definition repeatedRecord :: "string \<Rightarrow> SavedRepo list option" where
  "repeatedRecord text =
     (if text = ''[r7,r7]''
      then Some [withSavedAt (sampleRepo 7 ''alpha'') 100, withSavedAt (sampleRepo 7 ''alpha'') 150]
      else None)"

text \<open>
  \<^verbatim>\<open>toggleSave(repo)\<close>. The updater looks the identifier up with \<^verbatim>\<open>find\<close>; a hit
  removes every entry with that identifier, a miss puts a fresh entry in front. The two
  calls of \<^verbatim>\<open>Date.now()\<close> (toast identifier, then \<^verbatim>\<open>savedAt\<close>) are the two
  time parameters.
\<close>

definition toggleSave :: "GithubRepo \<Rightarrow> int \<Rightarrow> int \<Rightarrow> AppState \<Rightarrow> AppState" where
  "toggleSave repo toastNow now st =
     (case find (\<lambda>r. repo_id r = repo_id repo) (savedRepos st) of
        Some exists \<Rightarrow>
          (addToast (''Removed '' @ name repo) Info toastNow st)
            \<lparr>savedRepos := filter (\<lambda>r. repo_id r \<noteq> repo_id repo) (savedRepos st)\<rparr>
      | None \<Rightarrow>
          (addToast (''Saved '' @ name repo @ ''!'') Success toastNow st)
            \<lparr>savedRepos := withSavedAt repo now # savedRepos st\<rparr>)"

section \<open>Feed fetcher (src/App.tsx, fetchRepos and its callers)\<close>

text \<open>
  \<^verbatim>\<open>fetchRepos(type, range, pageNum)\<close> is asynchronous: it runs up to
  \<^verbatim>\<open>await fetch(...)\<close>, and its continuation runs when the response arrives. The
  model splits it at the \<^verbatim>\<open>await\<close>. \<open>fetchRepos_start\<close> is the synchronous part and
  returns the pending request (the arguments the continuation closes over), or none on the
  saved tab, where the function returns at once. \<open>fetchRepos_resolve\<close> is the
  continuation, run on the state of the moment the response arrives.
\<close>

record Request =
  req_type :: TabType
  req_range :: TimeRange
  req_pageNum :: int

text \<open>
  What comes back from the search API. \<^verbatim>\<open>fetch\<close> rejects on a network failure;
  otherwise there is a status and a body. \<^verbatim>\<open>response.json()\<close> rejects on a body that
  is not JSON; a JSON body is the value \<^verbatim>\<open>null\<close>, on which reading
  \<^verbatim>\<open>data.items\<close> throws, or a value with an \<^verbatim>\<open>items\<close> array or with none.
\<close>

datatype Body = NotJson | JsonNull | Json "GithubRepo list option"

datatype Response = NetworkFailure | Http int Body

definition fetchRepos_start ::
  "TabType \<Rightarrow> TimeRange \<Rightarrow> int \<Rightarrow> AppState \<Rightarrow> AppState \<times> Request option" where
  "fetchRepos_start type timeRange pageNum st =
     (if type = Saved then (st, None)
      else ((if pageNum = 1 then st\<lparr>isLoading := True, aiFilteredIds := None\<rparr>
             else st\<lparr>isFetchingMore := True\<rparr>),
            Some \<lparr> req_type = type, req_range = timeRange, req_pageNum = pageNum \<rparr>))"

text \<open>
  The continuation never looks at the status: it parses the body and branches on
  \<^verbatim>\<open>data.items\<close>. Both rejections and the read of a null body land in
  \<^verbatim>\<open>catch\<close>, which logs and clears \<^verbatim>\<open>hasMore\<close>; \<^verbatim>\<open>finally\<close> clears both
  loading flags.
\<close>

definition fetchRepos_resolve :: "Request \<Rightarrow> Response \<Rightarrow> AppState \<Rightarrow> AppState" where
  "fetchRepos_resolve req resp st =
     (let caught = st\<lparr>consoleErrors := consoleErrors st @ [''Error fetching repos:''],
                      hasMore := False\<rparr>;
          st1 = (case resp of
                   NetworkFailure \<Rightarrow> caught
                 | Http status NotJson \<Rightarrow> caught
                 | Http status JsonNull \<Rightarrow> caught
                 | Http status (Json None) \<Rightarrow> st\<lparr>hasMore := False\<rparr>
                 | Http status (Json (Some items)) \<Rightarrow>
                     (if req_pageNum req = 1 then st\<lparr>repos := items\<rparr>
                      else st\<lparr>repos := repos st @
                              filter (\<lambda>r. repo_id r \<notin> set (map repo_id (repos st))) items\<rparr>)
                       \<lparr>hasMore := (length items = 30 \<and> req_pageNum req < 34)\<rparr>)
      in st1\<lparr>isLoading := False, isFetchingMore := False\<rparr>)"

text \<open>The effect on \<^verbatim>\<open>[activeTab, activeRange]\<close>: reset, then fetch page 1.\<close>

definition resetEffect :: "AppState \<Rightarrow> AppState \<times> Request option" where
  "resetEffect st =
     fetchRepos_start (activeTab st) (activeRange st) 1
       (st\<lparr>page := 1, hasMore := True, repos := []\<rparr>)"

definition loadMore :: "AppState \<Rightarrow> AppState \<times> Request option" where
  "loadMore st =
     (if \<not> isLoading st \<and> \<not> isFetchingMore st \<and> hasMore st \<and> activeTab st \<noteq> Saved
      then fetchRepos_start (activeTab st) (activeRange st) (page st + 1)
             (st\<lparr>page := page st + 1\<rparr>)
      else (st, None))"

definition handleRefresh :: "int \<Rightarrow> AppState \<Rightarrow> AppState \<times> Request option" where
  "handleRefresh now st =
     (let started = fetchRepos_start (activeTab st) (activeRange st) 1
                      (st\<lparr>page := 1, hasMore := True, repos := [], aiFilteredIds := None\<rparr>)
      in (addToast ''Feed refreshed'' Success now (fst started), snd started))"

subsection \<open>The event loop\<close>

text \<open>
  The component together with the fetches that have been issued and have not resolved yet.
  An event is a user action or the arrival of the response of a pending fetch. Setting the
  tab or the range to its current value re-renders nothing, so the effect does not run.
\<close>

record World =
  app :: AppState
  inflight :: "Request list"

datatype Event =
    SetActiveTab TabType
  | SetActiveRange TimeRange
  | Refresh int
  | ScrollToEnd
  | Resolve nat Response

definition issue :: "AppState \<times> Request option \<Rightarrow> Request list \<Rightarrow> World" where
  "issue sr pending =
     \<lparr> app = fst sr,
       inflight = (case snd sr of None \<Rightarrow> pending | Some r \<Rightarrow> pending @ [r]) \<rparr>"

definition mount :: World where
  "mount = issue (resetEffect initialState) []"

fun step :: "World \<Rightarrow> Event \<Rightarrow> World" where
  "step w (SetActiveTab t) =
     (if t = activeTab (app w) then w
      else issue (resetEffect ((app w)\<lparr>activeTab := t\<rparr>)) (inflight w))"
| "step w (SetActiveRange r) =
     (if r = activeRange (app w) then w
      else issue (resetEffect ((app w)\<lparr>activeRange := r\<rparr>)) (inflight w))"
| "step w (Refresh now) = issue (handleRefresh now (app w)) (inflight w)"
| "step w ScrollToEnd = issue (loadMore (app w)) (inflight w)"
| "step w (Resolve i resp) =
     (if i < length (inflight w)
      then \<lparr> app = fetchRepos_resolve (inflight w ! i) resp (app w),
             inflight = take i (inflight w) @ drop (Suc i) (inflight w) \<rparr>
      else w)"

definition run :: "World \<Rightarrow> Event list \<Rightarrow> World" where
  "run w evs = foldl step w evs"

text \<open>
  A component on page 3 of the trending feed of the week, narrowed by a smart filter to
  repository 101, with nothing in flight.
\<close>

definition filteredFeed :: World where
  "filteredFeed =
     \<lparr> app = initialState\<lparr>repos := [sampleRepo 101 ''alpha''], page := 3,
                            aiFilteredIds := Some [101]\<rparr>,
       inflight = [] \<rparr>"

text \<open>The items an event delivers to the feed: those of a response with an \<^verbatim>\<open>items\<close> array.\<close>

definition pageItems :: "Event \<Rightarrow> GithubRepo list" where
  "pageItems ev =
     (case ev of Resolve i (Http status (Json (Some items))) \<Rightarrow> items | _ \<Rightarrow> [])"

section \<open>Enrichment lookups (src/App.tsx, AIInsight and RepoLanguages)\<close>

text \<open>
  The network as the two enrichment components see it: the requests issued so far, in
  order, by repository identifier (AI insight) and by owner and name (languages).
\<close>

record Network =
  insightCalls :: "int list"
  languageCalls :: "(string \<times> string) list"

definition idleNetwork :: Network where
  "idleNetwork = \<lparr> insightCalls = [], languageCalls = [] \<rparr>"

record AIInsightState =
  insight :: "string option"
  loading :: bool

text \<open>
  The effect of \<^verbatim>\<open>AIInsight\<close> on mount (and on a new \<^verbatim>\<open>repo.id\<close>):
  \<^verbatim>\<open>fetchInsight()\<close> sets the loading flag and calls the model, with no lookup before
  the call. The response text, or a fixed sentence when it is empty or the call fails,
  becomes the insight.
\<close>

definition AIInsight_fetchInsight ::
  "GithubRepo \<Rightarrow> AIInsightState \<times> Network \<Rightarrow> AIInsightState \<times> Network" where
  "AIInsight_fetchInsight repo cn =
     ((fst cn)\<lparr>loading := True\<rparr>,
      (snd cn)\<lparr>insightCalls := insightCalls (snd cn) @ [repo_id repo]\<rparr>)"

definition AIInsight_settle :: "string option \<Rightarrow> AIInsightState \<Rightarrow> AIInsightState" where
  "AIInsight_settle outcome c =
     (case outcome of
        Some text \<Rightarrow>
          c\<lparr>insight := Some (if text = []
                              then ''This repository seems like a solid addition to a modern dev stack.''
                              else text),
            loading := False\<rparr>
      | None \<Rightarrow>
          c\<lparr>insight := Some ''A trending utility that simplifies complex developer workflows.'',
            loading := False\<rparr>)"

record RepoLanguagesState =
  languages :: "(string \<times> int) list"
  languagesLoading :: bool

text \<open>
  The effect of \<^verbatim>\<open>RepoLanguages\<close> on mount (and on a new owner or name):
  \<^verbatim>\<open>fetchLanguages()\<close> requests the language breakdown at once.
\<close>

definition RepoLanguages_fetchLanguages :: "string \<Rightarrow> string \<Rightarrow> Network \<Rightarrow> Network" where
  "RepoLanguages_fetchLanguages ownerLogin repoName net =
     net\<lparr>languageCalls := languageCalls net @ [(ownerLogin, repoName)]\<rparr>"

definition RepoLanguages_settle ::
  "(string \<times> int) list option \<Rightarrow> RepoLanguagesState \<Rightarrow> RepoLanguagesState" where
  "RepoLanguages_settle outcome c =
     (case outcome of
        Some data \<Rightarrow> c\<lparr>languages := data, languagesLoading := False\<rparr>
      | None \<Rightarrow> c\<lparr>languagesLoading := False\<rparr>)"

section \<open>Smart filter (src/App.tsx, runSmartFilter)\<close>

text \<open>
  \<^verbatim>\<open>runSmartFilter(query)\<close>, split at its \<^verbatim>\<open>await\<close> like \<^verbatim>\<open>fetchRepos\<close>. A query of
  fewer than three characters after trimming issues nothing. The answer is the parsed
  array of identifiers, stored as it comes; or the value \<^verbatim>\<open>null\<close>, which is stored
  too before reading its length throws; or none, when the call or the parse fails.
\<close>

datatype FilterAnswer = Identifiers "int list" | NullAnswer | NoAnswer

definition runSmartFilter_start :: "string \<Rightarrow> AppState \<Rightarrow> AppState \<times> bool" where
  "runSmartFilter_start query st =
     (if query = [] \<or> length (trim query) < 3 then (st, False)
      else (st\<lparr>isAiFiltering := True\<rparr>, True))"

definition runSmartFilter_settle :: "FilterAnswer \<Rightarrow> int \<Rightarrow> AppState \<Rightarrow> AppState" where
  "runSmartFilter_settle answer now st =
     (let caught = (\<lambda>s. addToast ''AI filtering failed'' Error now
                          (s\<lparr>consoleErrors := consoleErrors s @ [''Smart Filter Error:'']\<rparr>))
      in (case answer of
            Identifiers matchedIds \<Rightarrow>
              (if length matchedIds = 0
               then addToast ''No intelligent matches found'' Info now
                      (st\<lparr>aiFilteredIds := Some matchedIds\<rparr>)
               else addToast (''AI matched '' @ showNat (length matchedIds) @ '' projects'')
                      Success now (st\<lparr>aiFilteredIds := Some matchedIds\<rparr>))
          | NullAnswer \<Rightarrow> caught (st\<lparr>aiFilteredIds := None\<rparr>)
          | NoAnswer \<Rightarrow> caught st)
           \<lparr>isAiFiltering := False\<rparr>)"

section \<open>The entry-point variant (src/Dockerfile, lines 49 to 728)\<close>

text \<open>
  The repository holds a second, self-contained version of the application (it ends with
  \<^verbatim>\<open>ReactDOM.createRoot(...).render(<App />)\<close>). Its functions have the names of those
  of \<^verbatim>\<open>App.tsx\<close>; the suffix \<open>_entry\<close> tells them apart. They are modelled to compare
  the two versions where they differ.
\<close>

text \<open>
  Its load effect (lines 395 to 402) wraps the read in \<^verbatim>\<open>try\<close>/\<^verbatim>\<open>catch\<close> and warns on
  the console.
\<close>

definition loadSavedEffect_entry ::
  "(string \<Rightarrow> SavedRepo list option) \<Rightarrow> string option \<Rightarrow> AppState \<Rightarrow> AppState" where
  "loadSavedEffect_entry JSON_parse stored st =
     (case stored of
        None \<Rightarrow> st
      | Some text \<Rightarrow>
          if text = [] then st
          else (case JSON_parse text of
                  None \<Rightarrow> st\<lparr>consoleErrors := consoleErrors st
                                   @ [''Failed to read saved repos from storage.'']\<rparr>
                | Some parsed \<Rightarrow> st\<lparr>savedRepos := parsed\<rparr>))"

text \<open>
  Its state has an error message and the time of the last successful load, and the
  component keeps the \<^verbatim>\<open>AbortController\<close> of the latest fetch in a ref. Controllers are
  numbered in the order of their creation; \<open>abortedControllers\<close> lists those whose
  \<^verbatim>\<open>abort()\<close> has been called. The state also carries the cells of \<^verbatim>\<open>App.tsx\<close> that
  this version does not have, which it never touches.
\<close>

record EntryState = AppState +
  errorMessage :: "string option"
  lastUpdated :: "int option"
  requestController :: "nat option"
  abortedControllers :: "nat list"
  controllersMade :: nat

record EntryRequest = Request +
  req_controller :: nat

definition initialEntryState :: EntryState where
  "initialEntryState =
     AppState.extend initialState
       (EntryState.fields None None None [] 0)"

text \<open>
  \<^verbatim>\<open>fetchRepos\<close> (lines 415 to 452). Before it fetches it aborts the controller in the
  ref and installs a new one. An aborted fetch rejects with \<^verbatim>\<open>AbortError\<close>:
  \<^verbatim>\<open>catch\<close> returns on it and \<^verbatim>\<open>finally\<close> returns on an aborted signal, so nothing is
  updated. A response that is not \<^verbatim>\<open>ok\<close> throws a message that tells status 403 from
  the others; \<open>thrown\<close> is the message of an error the platform throws (network failure,
  body that is not JSON, read of a null body), \<open>now\<close> the clock.
\<close>

definition fetchRepos_entry_start ::
  "TabType \<Rightarrow> TimeRange \<Rightarrow> int \<Rightarrow> EntryState \<Rightarrow> EntryState \<times> EntryRequest option" where
  "fetchRepos_entry_start t r p st =
     (if t = Saved then (st, None)
      else (let st1 = (if p = 1 then st\<lparr>isLoading := True, aiFilteredIds := None\<rparr>
                       else st\<lparr>isFetchingMore := True\<rparr>);
                st2 = (case requestController st1 of
                         None \<Rightarrow> st1
                       | Some c \<Rightarrow> st1\<lparr>abortedControllers := c # abortedControllers st1\<rparr>);
                controller = controllersMade st2
            in (st2\<lparr>requestController := Some controller,
                     controllersMade := Suc controller,
                     errorMessage := None\<rparr>,
                Some \<lparr> req_type = t, req_range = r, req_pageNum = p,
                       req_controller = controller \<rparr>)))"

definition fetchRepos_entry_resolve ::
  "EntryRequest \<Rightarrow> Response \<Rightarrow> string \<Rightarrow> int \<Rightarrow> EntryState \<Rightarrow> EntryState" where
  "fetchRepos_entry_resolve req resp thrown now st =
     (if req_controller req \<in> set (abortedControllers st) then st
      else (let caught = (\<lambda>m. st\<lparr>hasMore := False, errorMessage := Some m\<rparr>);
                st1 = (case resp of
                         NetworkFailure \<Rightarrow> caught thrown
                       | Http status body \<Rightarrow>
                           if \<not> (200 \<le> status \<and> status \<le> 299)
                           then caught
                                  (if status = 403
                                   then ''GitHub API rate limit hit. Please wait a bit or add an authenticated proxy.''
                                   else ''GitHub API error ('' @ showNat (nat status) @ '').'')
                           else (case body of
                                   NotJson \<Rightarrow> caught thrown
                                 | JsonNull \<Rightarrow> caught thrown
                                 | Json None \<Rightarrow>
                                     st\<lparr>hasMore := False,
                                        errorMessage := Some ''Unexpected response from GitHub.''\<rparr>
                                 | Json (Some items) \<Rightarrow>
                                     (if req_pageNum req = 1 then st\<lparr>repos := items\<rparr>
                                      else st\<lparr>repos := repos st @
                                             filter (\<lambda>ni. find (\<lambda>pi. repo_id pi = repo_id ni) (repos st) = None)
                                               items\<rparr>)
                                       \<lparr>hasMore := (length items = 30 \<and> req_pageNum req < 15),
                                        lastUpdated := Some now\<rparr>))
            in st1\<lparr>isLoading := False, isFetchingMore := False\<rparr>))"

definition resetEffect_entry :: "EntryState \<Rightarrow> EntryState \<times> EntryRequest option" where
  "resetEffect_entry st =
     fetchRepos_entry_start (activeTab st) (activeRange st) 1
       (st\<lparr>page := 1, hasMore := True, repos := []\<rparr>)"

definition loadMore_entry :: "EntryState \<Rightarrow> EntryState \<times> EntryRequest option" where
  "loadMore_entry st =
     (if \<not> isLoading st \<and> \<not> isFetchingMore st \<and> hasMore st \<and> activeTab st \<noteq> Saved
      then fetchRepos_entry_start (activeTab st) (activeRange st) (page st + 1)
             (st\<lparr>page := page st + 1\<rparr>)
      else (st, None))"

definition handleRefresh_entry :: "int \<Rightarrow> EntryState \<Rightarrow> EntryState \<times> EntryRequest option" where
  "handleRefresh_entry now st =
     (let started = fetchRepos_entry_start (activeTab st) (activeRange st) 1
                      (st\<lparr>page := 1, hasMore := True, repos := [], aiFilteredIds := None\<rparr>)
      in ((fst started)\<lparr>toasts := toasts (fst started)
              @ [\<lparr> toast_id = now, message = ''Refreshed Feed'', toast_type = Success \<rparr>]\<rparr>,
          snd started))"

record EntryWorld =
  entry_app :: EntryState
  entry_inflight :: "EntryRequest list"

datatype EntryEvent =
    EntrySetActiveTab TabType
  | EntrySetActiveRange TimeRange
  | EntryRefresh int
  | EntryScrollToEnd
  | EntryResolve nat Response string int

definition issue_entry :: "EntryState \<times> EntryRequest option \<Rightarrow> EntryRequest list \<Rightarrow> EntryWorld" where
  "issue_entry sr pending =
     \<lparr> entry_app = fst sr,
       entry_inflight = (case snd sr of None \<Rightarrow> pending | Some r \<Rightarrow> pending @ [r]) \<rparr>"

definition mount_entry :: EntryWorld where
  "mount_entry = issue_entry (resetEffect_entry initialEntryState) []"

fun step_entry :: "EntryWorld \<Rightarrow> EntryEvent \<Rightarrow> EntryWorld" where
  "step_entry w (EntrySetActiveTab t) =
     (if t = activeTab (entry_app w) then w
      else (let w1 = issue_entry (resetEffect_entry ((entry_app w)\<lparr>activeTab := t\<rparr>)) (entry_inflight w)
            in if t = Saved then w1\<lparr>entry_app := (entry_app w1)\<lparr>errorMessage := None\<rparr>\<rparr> else w1))"
| "step_entry w (EntrySetActiveRange r) =
     (if r = activeRange (entry_app w) then w
      else issue_entry (resetEffect_entry ((entry_app w)\<lparr>activeRange := r\<rparr>)) (entry_inflight w))"
| "step_entry w (EntryRefresh now) = issue_entry (handleRefresh_entry now (entry_app w)) (entry_inflight w)"
| "step_entry w EntryScrollToEnd = issue_entry (loadMore_entry (entry_app w)) (entry_inflight w)"
| "step_entry w (EntryResolve i resp thrown now) =
     (if i < length (entry_inflight w)
      then \<lparr> entry_app = fetchRepos_entry_resolve (entry_inflight w ! i) resp thrown now (entry_app w),
             entry_inflight = take i (entry_inflight w) @ drop (Suc i) (entry_inflight w) \<rparr>
      else w)"

definition run_entry :: "EntryWorld \<Rightarrow> EntryEvent list \<Rightarrow> EntryWorld" where
  "run_entry w evs = foldl step_entry w evs"

text \<open>
  Every pending fetch has a controller that exists, and is either the one in the ref or
  aborted.
\<close>

definition superseded_aborted :: "EntryWorld \<Rightarrow> bool" where
  "superseded_aborted w =
     list_all (\<lambda>req. req_controller req < controllersMade (entry_app w)
                    \<and> (requestController (entry_app w) = Some (req_controller req)
                        \<or> req_controller req \<in> set (abortedControllers (entry_app w))))
       (entry_inflight w)"

text \<open>
  The events that start a new feed session or reload the current one: a change to the
  trending or latest tab, a change of range on one of them, a refresh on one of them.
\<close>

definition supersedes :: "EntryWorld \<Rightarrow> EntryEvent \<Rightarrow> bool" where
  "supersedes w ev =
     (case ev of
        EntrySetActiveTab t \<Rightarrow> t \<noteq> Saved \<and> t \<noteq> activeTab (entry_app w)
      | EntrySetActiveRange r \<Rightarrow> activeTab (entry_app w) \<noteq> Saved \<and> r \<noteq> activeRange (entry_app w)
      | EntryRefresh now \<Rightarrow> activeTab (entry_app w) \<noteq> Saved
      | _ \<Rightarrow> False)"

text \<open>
  The enrichment components of this version (lines 141 to 142, 217 to 250, 259 to 290)
  look a key up in a module-level \<^verbatim>\<open>Map\<close> before they call the network, and store a
  settled result in it. \<^verbatim>\<open>if (cached)\<close> takes an empty string for a miss; every stored
  language table is a hit. The AI call needs an API key.
\<close>

record EntryNetwork = Network +
  aiInsightCache :: "int \<Rightarrow> string option"
  languagesCache :: "string \<Rightarrow> (string \<times> int) list option"

definition AIInsight_entry_fetchInsight ::
  "string option \<Rightarrow> GithubRepo \<Rightarrow> AIInsightState \<times> EntryNetwork \<Rightarrow> AIInsightState \<times> EntryNetwork" where
  "AIInsight_entry_fetchInsight apiKey repo cn =
     (let cached = aiInsightCache (snd cn) (repo_id repo)
      in if cached \<noteq> None \<and> cached \<noteq> Some []
         then ((fst cn)\<lparr>insight := cached\<rparr>, snd cn)
         else if apiKey = None \<or> apiKey = Some []
         then ((fst cn)\<lparr>insight :=
                  Some ''Add a Gemini API key to unlock AI insights for this repository.''\<rparr>,
               snd cn)
         else ((fst cn)\<lparr>loading := True\<rparr>,
               (snd cn)\<lparr>insightCalls := insightCalls (snd cn) @ [repo_id repo]\<rparr>))"

definition AIInsight_entry_settle ::
  "GithubRepo \<Rightarrow> string option \<Rightarrow> AIInsightState \<times> EntryNetwork \<Rightarrow> AIInsightState \<times> EntryNetwork" where
  "AIInsight_entry_settle repo outcome cn =
     (case outcome of
        Some text \<Rightarrow>
          (let message = (if text = [] then ''A high-impact tool for modern developers.'' else text)
           in ((fst cn)\<lparr>insight := Some message, loading := False\<rparr>,
               (snd cn)\<lparr>aiInsightCache := (aiInsightCache (snd cn))(repo_id repo \<mapsto> message)\<rparr>))
      | None \<Rightarrow>
          ((fst cn)\<lparr>insight := Some ''Trending repository with significant community momentum.'',
                    loading := False\<rparr>,
           snd cn))"

definition RepoLanguages_entry_loadLanguages ::
  "string \<Rightarrow> string \<Rightarrow> RepoLanguagesState \<times> EntryNetwork \<Rightarrow> RepoLanguagesState \<times> EntryNetwork" where
  "RepoLanguages_entry_loadLanguages ownerLogin repoName cn =
     (case languagesCache (snd cn) (ownerLogin @ ''/'' @ repoName) of
        Some cached \<Rightarrow> ((fst cn)\<lparr>languages := cached, languagesLoading := False\<rparr>, snd cn)
      | None \<Rightarrow>
          (fst cn, (snd cn)\<lparr>languageCalls := languageCalls (snd cn) @ [(ownerLogin, repoName)]\<rparr>))"

definition RepoLanguages_entry_settle ::
  "string \<Rightarrow> string \<Rightarrow> (string \<times> int) list option \<Rightarrow> RepoLanguagesState \<times> EntryNetwork
     \<Rightarrow> RepoLanguagesState \<times> EntryNetwork" where
  "RepoLanguages_entry_settle ownerLogin repoName outcome cn =
     (case outcome of
        Some data \<Rightarrow>
          ((fst cn)\<lparr>languages := data, languagesLoading := False\<rparr>,
           (snd cn)\<lparr>languagesCache := (languagesCache (snd cn))(ownerLogin @ ''/'' @ repoName \<mapsto> data)\<rparr>)
      | None \<Rightarrow> ((fst cn)\<lparr>languagesLoading := False\<rparr>, snd cn))"

section \<open>Properties of the view composition\<close>

text \<open>The substring test is the contiguous-sublist relation of the library.\<close>

lemma includes_str_sublist: "includes_str s q \<longleftrightarrow> sublist q s"
  by (induction s) (auto simp: sublist_Cons_right)

lemma filteredRepos_unfold:
  "filteredRepos tab feed saved q ids smart busy =
     (if q = [] \<or> (smart \<and> (ids \<noteq> None \<or> \<not> busy))
      then aiFiltered ids (viewSource tab feed saved)
      else filter (keywordMatch q) (aiFiltered ids (viewSource tab feed saved)))"
  unfolding filteredRepos_def viewSource_def aiFiltered_def keywordMatch_def matchesText_def Let_def
  by (cases ids) auto

lemma aiFiltered_subseq: "subseq (aiFiltered ids source) source"
  by (cases ids) (simp_all add: aiFiltered_def)

text \<open>
  Claim C10. The visible list is an order-preserving subsequence of the selected source
  (feed or saved collection), whatever identifiers the smart filter holds and whatever the
  query is: composition only removes entries, so an identifier that is not in the source
  cannot add one.
\<close>

theorem filteredRepos_subseq_source:
  "subseq (filteredRepos tab feed saved q ids smart busy)
          (viewSource tab feed saved)"
proof -
  let ?src = "viewSource tab feed saved"
  have a: "subseq (aiFiltered ids ?src) ?src"
    by (rule aiFiltered_subseq)
  have k: "subseq (filter (keywordMatch q) (aiFiltered ids ?src))
                  (aiFiltered ids ?src)"
    by simp
  from k a have "subseq (filter (keywordMatch q) (aiFiltered ids ?src)) ?src"
    by (rule subseq_order.trans)
  with a show ?thesis
    by (simp add: filteredRepos_unfold)
qed

lemmas view_eval = filteredRepos_def sampleRepo_def toLowerCase_def lowerChar_def
  asGithubRepo_def keywordMatch_def spec_keywordMatch_def matchesText_def
  spec_textFilterSkipped_def aiFiltered_def viewSource_def Let_def

text \<open>
  Claim C2, as the code has it. For a non-empty query the text filter is skipped exactly
  when smart mode is on and either the smart-filter result is non-null or it is null and
  no AI filter request is in flight; in every other case the keyword filter (name, owner
  login, description) is applied to the result of the smart-filter stage.
\<close>

theorem filteredRepos_text_filter_gate:
  "q \<noteq> [] \<Longrightarrow>
   filteredRepos tab feed saved q ids smart busy =
     (if (smart \<and> ids \<noteq> None) \<or> (smart \<and> ids = None \<and> \<not> busy)
      then aiFiltered ids (viewSource tab feed saved)
      else filter (keywordMatch q) (aiFiltered ids (viewSource tab feed saved)))"
  by (auto simp add: filteredRepos_unfold)

theorem filteredRepos_text_filter_gate_witness:
  "''zzz'' \<noteq> [] \<and>
   filteredRepos Trending [sampleRepo 1 ''alpha''] [] ''zzz'' None True False
     = [sampleRepo 1 ''alpha''] \<and>
   filteredRepos Trending [sampleRepo 1 ''alpha''] [] ''zzz'' None True True = []"
  using filteredRepos_text_filter_gate
          [of "''zzz''" Trending "[sampleRepo 1 ''alpha'']" "[]" None True False]
        filteredRepos_text_filter_gate
          [of "''zzz''" Trending "[sampleRepo 1 ''alpha'']" "[]" None True True]
  by (simp add: aiFiltered_def viewSource_def keywordMatch_def matchesText_def
                sampleRepo_def toLowerCase_def lowerChar_def)

text \<open>
  The claim as the specification words it fails both ways. In smart mode with a null
  result the query \<open>zzz\<close> matches nothing: with no request in flight the specification
  applies the keyword filter and the code skips it, and with a request in flight the
  specification skips it and the code applies it.
\<close>

theorem spec_text_filter_gate_counterexample:
  "filteredRepos Trending [sampleRepo 1 ''alpha''] [] ''zzz'' None True False
     \<noteq> (if spec_textFilterSkipped True None False
         then aiFiltered None (viewSource Trending [sampleRepo 1 ''alpha''] [])
         else filter (keywordMatch ''zzz'')
                (aiFiltered None (viewSource Trending [sampleRepo 1 ''alpha''] [])))
   \<and> filteredRepos Trending [sampleRepo 1 ''alpha''] [] ''zzz'' None True True
     \<noteq> (if spec_textFilterSkipped True None True
         then aiFiltered None (viewSource Trending [sampleRepo 1 ''alpha''] [])
         else filter (keywordMatch ''zzz'')
                (aiFiltered None (viewSource Trending [sampleRepo 1 ''alpha''] [])))"
  by (simp add: view_eval)

text \<open>
  Claim C3, evaluated on \<^verbatim>\<open>App.tsx\<close>. The sample repository has the primary language
  Rust and the topic kubernetes, so the specification's keyword filter retains it for the
  queries \<open>rust\<close> and \<open>KUBE\<close>; the keyword filter of \<^verbatim>\<open>App.tsx\<close> looks at name, owner
  login and description only and drops it.
\<close>

theorem keyword_filter_misses_language_and_topics:
  "spec_keywordMatch ''rust'' (sampleRepo 1 ''alpha'')
   \<and> spec_keywordMatch ''KUBE'' (sampleRepo 1 ''alpha'')
   \<and> filteredRepos Trending [sampleRepo 1 ''alpha''] [] ''rust'' None False False = []
   \<and> filteredRepos Trending [sampleRepo 1 ''alpha''] [] ''KUBE'' None False False = []"
  by (simp add: view_eval)

text \<open>
  For comparison: in keyword mode the entry-point variant retains exactly the entries the
  specification's five-field filter retains for the trimmed query, and in smart mode it
  always skips the text filter.
\<close>

lemma toLowerCase_Nil [simp]: "toLowerCase s = [] \<longleftrightarrow> s = []"
  by (simp add: toLowerCase_def)

lemma includes_str_empty_text: "q \<noteq> [] \<Longrightarrow> \<not> includes_str [] q"
  by simp

lemma entry_haystack:
  assumes "trim q \<noteq> []"
  shows "list_ex (\<lambda>v. includes_str (toLowerCase v) (toLowerCase (trim q)))
           ([name r, login (owner r),
             (case description r of None \<Rightarrow> [] | Some d \<Rightarrow> d),
             (case language r of None \<Rightarrow> [] | Some l \<Rightarrow> l)] @ topics r)
         = spec_keywordMatch (trim q) r"
proof -
  have ne: "toLowerCase (trim q) \<noteq> []"
    using assms by simp
  have d: "includes_str (toLowerCase (case description r of None \<Rightarrow> [] | Some d \<Rightarrow> d)) (toLowerCase (trim q))
           = (case description r of None \<Rightarrow> False | Some d \<Rightarrow> matchesText (trim q) d)"
    using ne by (cases "description r") (simp_all add: matchesText_def toLowerCase_def)
  have l: "includes_str (toLowerCase (case language r of None \<Rightarrow> [] | Some l \<Rightarrow> l)) (toLowerCase (trim q))
           = (case language r of None \<Rightarrow> False | Some l \<Rightarrow> matchesText (trim q) l)"
    using ne by (cases "language r") (simp_all add: matchesText_def toLowerCase_def)
  have t: "list_ex (\<lambda>v. includes_str (toLowerCase v) (toLowerCase (trim q))) (topics r)
           = list_ex (matchesText (trim q)) (topics r)"
    by (simp add: matchesText_def [abs_def])
  show ?thesis
    unfolding spec_keywordMatch_def
    by (simp only: list_ex_append list_ex_Cons_iff list_ex_Nil_iff d l t simp_thms)
       (simp add: matchesText_def disj_assoc)
qed

lemma filteredRepos_entry_keyword:
  assumes "\<not> smart" and "trim q \<noteq> []"
  shows "filteredRepos_entry tab feed saved q ids smart
           = filter (spec_keywordMatch (trim q)) (aiFiltered ids (viewSource tab feed saved))"
proof -
  have q: "q \<noteq> []"
    using assms(2) by (auto simp: trim_def)
  have ne: "toLowerCase (trim q) \<noteq> []"
    using assms(2) by simp
  have p: "(\<lambda>r. list_ex (\<lambda>v. includes_str (toLowerCase v) (toLowerCase (trim q)))
                  ([name r, login (owner r),
                    (case description r of None \<Rightarrow> [] | Some d \<Rightarrow> d),
                    (case language r of None \<Rightarrow> [] | Some l \<Rightarrow> l)] @ topics r))
           = spec_keywordMatch (trim q)"
    by (rule ext) (rule entry_haystack [OF assms(2)])
  show ?thesis
    unfolding filteredRepos_entry_def Let_def p aiFiltered_def viewSource_def
    using assms(1) q ne by simp
qed

lemma filteredRepos_entry_smart:
  "filteredRepos_entry tab feed saved q ids True = aiFiltered ids (viewSource tab feed saved)"
  by (simp add: filteredRepos_entry_def aiFiltered_def viewSource_def Let_def)

section \<open>Properties of the save store\<close>

lemma withSavedAt_simps [simp]:
  "repo_id (withSavedAt r t) = repo_id r"
  "savedAt (withSavedAt r t) = t"
  "name (withSavedAt r t) = name r"
  by (simp_all add: withSavedAt_def GithubRepo.defs SavedRepo.defs)

lemma find_id_None: "(find (\<lambda>r. repo_id r = i) xs = None) = (i \<notin> repo_id ` set xs)"
  by (induction xs) auto

lemma savedRepos_toggleSave:
  "savedRepos (toggleSave repo a b st) =
     (if repo_id repo \<in> repo_id ` set (savedRepos st)
      then filter (\<lambda>r. repo_id r \<noteq> repo_id repo) (savedRepos st)
      else withSavedAt repo b # savedRepos st)"
proof (cases "find (\<lambda>r. repo_id r = repo_id repo) (savedRepos st)")
  case None
  then have "repo_id repo \<notin> repo_id ` set (savedRepos st)"
    by (simp add: find_id_None)
  with None show ?thesis
    by (simp add: toggleSave_def addToast_def)
next
  case (Some e)
  then have "repo_id repo \<in> repo_id ` set (savedRepos st)"
    using find_id_None [of "repo_id repo" "savedRepos st"] by simp
  with Some show ?thesis
    by (simp add: toggleSave_def addToast_def)
qed

lemma filter_absent: "i \<notin> repo_id ` set xs \<Longrightarrow> filter (\<lambda>r. repo_id r \<noteq> i) xs = xs"
  by (induction xs) auto

lemma id_not_in_filter_out: "i \<notin> repo_id ` set (filter (\<lambda>r. repo_id r \<noteq> i) xs)"
  by (induction xs) auto

lemma toggleSave_distinct:
  assumes "distinct (map repo_id (savedRepos st))"
  shows "distinct (map repo_id (savedRepos (toggleSave repo a t st)))"
proof (cases "repo_id repo \<in> repo_id ` set (savedRepos st)")
  case True
  then have "savedRepos (toggleSave repo a t st)
               = filter (\<lambda>r. repo_id r \<noteq> repo_id repo) (savedRepos st)"
    by (simp add: savedRepos_toggleSave)
  with assms show ?thesis
    by (simp add: distinct_map_filter)
next
  case False
  then have "savedRepos (toggleSave repo a t st) = withSavedAt repo t # savedRepos st"
    by (simp add: savedRepos_toggleSave)
  with assms False show ?thesis
    by simp
qed

lemma toggleSave_twice_list:
  "savedRepos (toggleSave repo a2 t2 (toggleSave repo a1 t1 st)) =
     (if repo_id repo \<in> repo_id ` set (savedRepos st)
      then withSavedAt repo t2 # filter (\<lambda>r. repo_id r \<noteq> repo_id repo) (savedRepos st)
      else savedRepos st)"
proof (cases "repo_id repo \<in> repo_id ` set (savedRepos st)")
  case True
  then have once: "savedRepos (toggleSave repo a1 t1 st)
                     = filter (\<lambda>r. repo_id r \<noteq> repo_id repo) (savedRepos st)"
    by (simp add: savedRepos_toggleSave)
  have "repo_id repo \<notin> repo_id ` set (savedRepos (toggleSave repo a1 t1 st))"
    unfolding once by (rule id_not_in_filter_out)
  then have "savedRepos (toggleSave repo a2 t2 (toggleSave repo a1 t1 st))
               = withSavedAt repo t2 # savedRepos (toggleSave repo a1 t1 st)"
    using savedRepos_toggleSave [of repo a2 t2 "toggleSave repo a1 t1 st"] by simp
  with once True show ?thesis
    by simp
next
  case False
  then have once: "savedRepos (toggleSave repo a1 t1 st) = withSavedAt repo t1 # savedRepos st"
    by (simp add: savedRepos_toggleSave)
  then have "repo_id repo \<in> repo_id ` set (savedRepos (toggleSave repo a1 t1 st))"
    by simp
  then have "savedRepos (toggleSave repo a2 t2 (toggleSave repo a1 t1 st))
               = filter (\<lambda>r. repo_id r \<noteq> repo_id repo) (savedRepos (toggleSave repo a1 t1 st))"
    using savedRepos_toggleSave [of repo a2 t2 "toggleSave repo a1 t1 st"] by simp
  also have "\<dots> = filter (\<lambda>r. repo_id r \<noteq> repo_id repo) (savedRepos st)"
    unfolding once by simp
  also have "\<dots> = savedRepos st"
    using False by (rule filter_absent)
  finally show ?thesis
    using False by simp
qed

lemma ids_filter_out_insert:
  "i \<in> repo_id ` set xs \<Longrightarrow>
   insert i (repo_id ` set (filter (\<lambda>r. repo_id r \<noteq> i) xs)) = repo_id ` set xs"
  by (induction xs) auto

lemma toggleSave_twice_ids:
  "repo_id ` set (savedRepos (toggleSave repo a2 t2 (toggleSave repo a1 t1 st)))
     = repo_id ` set (savedRepos st)"
proof (cases "repo_id repo \<in> repo_id ` set (savedRepos st)")
  case True
  then have "savedRepos (toggleSave repo a2 t2 (toggleSave repo a1 t1 st))
               = withSavedAt repo t2 # filter (\<lambda>r. repo_id r \<noteq> repo_id repo) (savedRepos st)"
    by (simp only: toggleSave_twice_list if_True)
  then show ?thesis
    using ids_filter_out_insert [OF True] by simp
next
  case False
  then show ?thesis
    by (simp only: toggleSave_twice_list if_False)
qed

text \<open>
  Every collection reached from the empty one by toggles has at most one entry per
  identifier.
\<close>

lemma toggles_distinct:
  "distinct (map repo_id (savedRepos s)) \<Longrightarrow>
   distinct (map repo_id (savedRepos (foldl (\<lambda>s (r, a, t). toggleSave r a t s) s ops)))"
proof (induction ops arbitrary: s)
  case Nil
  then show ?case by simp
next
  case (Cons op ops)
  obtain r a t where op: "op = (r, a, t)"
    by (cases op) auto
  have "distinct (map repo_id (savedRepos (toggleSave r a t s)))"
    using Cons.prems by (rule toggleSave_distinct)
  then have "distinct (map repo_id (savedRepos
               (foldl (\<lambda>s (r, a, t). toggleSave r a t s) (toggleSave r a t s) ops)))"
    by (rule Cons.IH)
  then show ?case
    by (simp add: op)
qed

lemma toggles_from_empty_distinct:
  "distinct (map repo_id (savedRepos (foldl (\<lambda>s (r, a, t). toggleSave r a t s) initialState ops)))"
  by (rule toggles_distinct) (simp add: initialState_def)

lemma ids_toggleSave:
  "repo_id ` set (savedRepos (toggleSave repo a t st)) =
     (if repo_id repo \<in> repo_id ` set (savedRepos st)
      then repo_id ` set (savedRepos st) - {repo_id repo}
      else insert (repo_id repo) (repo_id ` set (savedRepos st)))"
proof (cases "repo_id repo \<in> repo_id ` set (savedRepos st)")
  case True
  have "repo_id ` set (filter (\<lambda>r. repo_id r \<noteq> repo_id repo) (savedRepos st))
          = repo_id ` set (savedRepos st) - {repo_id repo}"
    by auto
  with True show ?thesis
    by (simp add: savedRepos_toggleSave)
next
  case False
  then show ?thesis
    by (simp add: savedRepos_toggleSave)
qed

lemma filter_same_id_out: "filter (\<lambda>r. repo_id r = i) (filter (\<lambda>r. repo_id r \<noteq> i) xs) = []"
  by (induction xs) auto

lemma filter_same_id_absent: "i \<notin> repo_id ` set xs \<Longrightarrow> filter (\<lambda>r. repo_id r = i) xs = []"
  by (induction xs) auto

lemma savedAt_after_twice:
  "map savedAt (filter (\<lambda>r. repo_id r = repo_id repo)
        (savedRepos (toggleSave repo a2 t2 (toggleSave repo a1 t1 st))))
     = (if repo_id repo \<in> repo_id ` set (savedRepos st) then [t2] else [])"
proof (cases "repo_id repo \<in> repo_id ` set (savedRepos st)")
  case True
  then have "savedRepos (toggleSave repo a2 t2 (toggleSave repo a1 t1 st))
               = withSavedAt repo t2 # filter (\<lambda>r. repo_id r \<noteq> repo_id repo) (savedRepos st)"
    by (simp only: toggleSave_twice_list if_True)
  with True show ?thesis
    by (simp add: filter_same_id_out)
next
  case False
  then have "savedRepos (toggleSave repo a2 t2 (toggleSave repo a1 t1 st)) = savedRepos st"
    by (simp only: toggleSave_twice_list if_False)
  with False show ?thesis
    by (simp add: filter_same_id_absent)
qed

text \<open>
  Claim C7, as the code has it. A toggle on a saved repository removes every entry with its
  identifier, and a toggle on one that is not saved puts a fresh entry in front, so the
  set of saved identifiers loses or gains exactly that identifier. Two toggles of the same
  repository give back the same set of identifiers; a repository that was saved before
  comes back as the only entry with its identifier, in front, with the \<^verbatim>\<open>savedAt\<close>
  read at the second toggle (\<open>t2\<close>), whatever its old timestamp was, and one that was
  not saved leaves the collection as it was. Every collection built from the empty one by
  toggles has at most one entry per identifier, and a collection with that property keeps
  it through each toggle.
\<close>

theorem toggleSave_twice:
  "savedRepos (toggleSave repo a1 t1 st) =
       (if repo_id repo \<in> repo_id ` set (savedRepos st)
        then filter (\<lambda>r. repo_id r \<noteq> repo_id repo) (savedRepos st)
        else withSavedAt repo t1 # savedRepos st)
   \<and> repo_id ` set (savedRepos (toggleSave repo a1 t1 st)) =
       (if repo_id repo \<in> repo_id ` set (savedRepos st)
        then repo_id ` set (savedRepos st) - {repo_id repo}
        else insert (repo_id repo) (repo_id ` set (savedRepos st)))
   \<and> repo_id ` set (savedRepos (toggleSave repo a2 t2 (toggleSave repo a1 t1 st)))
       = repo_id ` set (savedRepos st)
   \<and> savedRepos (toggleSave repo a2 t2 (toggleSave repo a1 t1 st)) =
       (if repo_id repo \<in> repo_id ` set (savedRepos st)
        then withSavedAt repo t2 # filter (\<lambda>r. repo_id r \<noteq> repo_id repo) (savedRepos st)
        else savedRepos st)
   \<and> map savedAt (filter (\<lambda>r. repo_id r = repo_id repo)
         (savedRepos (toggleSave repo a2 t2 (toggleSave repo a1 t1 st))))
       = (if repo_id repo \<in> repo_id ` set (savedRepos st) then [t2] else [])
   \<and> distinct (map repo_id (savedRepos
         (foldl (\<lambda>s (r, a, t). toggleSave r a t s) initialState ops)))
   \<and> (distinct (map repo_id (savedRepos st)) \<longrightarrow>
        distinct (map repo_id (savedRepos (toggleSave repo a1 t1 st)))
        \<and> distinct (map repo_id (savedRepos (toggleSave repo a2 t2 (toggleSave repo a1 t1 st)))))"
proof -
  have d: "distinct (map repo_id (savedRepos st)) \<longrightarrow>
        distinct (map repo_id (savedRepos (toggleSave repo a1 t1 st)))
        \<and> distinct (map repo_id (savedRepos (toggleSave repo a2 t2 (toggleSave repo a1 t1 st))))"
  proof
    assume "distinct (map repo_id (savedRepos st))"
    then have d1: "distinct (map repo_id (savedRepos (toggleSave repo a1 t1 st)))"
      by (rule toggleSave_distinct)
    then have "distinct (map repo_id (savedRepos (toggleSave repo a2 t2 (toggleSave repo a1 t1 st))))"
      by (rule toggleSave_distinct)
    with d1 show "distinct (map repo_id (savedRepos (toggleSave repo a1 t1 st)))
        \<and> distinct (map repo_id (savedRepos (toggleSave repo a2 t2 (toggleSave repo a1 t1 st))))"
      by (rule conjI)
  qed
  show ?thesis
    by (intro conjI savedRepos_toggleSave ids_toggleSave toggleSave_twice_ids
              toggleSave_twice_list savedAt_after_twice toggles_from_empty_distinct d)
qed

theorem toggleSave_twice_witness:
  "distinct (map repo_id (savedRepos
      (initialState\<lparr>savedRepos := [withSavedAt (sampleRepo 7 ''alpha'') 100]\<rparr>)))
   \<and> savedRepos (toggleSave (sampleRepo 7 ''alpha'') 201 200
        (initialState\<lparr>savedRepos := [withSavedAt (sampleRepo 7 ''alpha'') 100]\<rparr>)) = []
   \<and> savedRepos (toggleSave (sampleRepo 7 ''alpha'') 301 300
        (toggleSave (sampleRepo 7 ''alpha'') 201 200
          (initialState\<lparr>savedRepos := [withSavedAt (sampleRepo 7 ''alpha'') 100]\<rparr>)))
       = [withSavedAt (sampleRepo 7 ''alpha'') 300]
   \<and> distinct (map repo_id (savedRepos (toggleSave (sampleRepo 7 ''alpha'') 301 300
        (toggleSave (sampleRepo 7 ''alpha'') 201 200
          (initialState\<lparr>savedRepos := [withSavedAt (sampleRepo 7 ''alpha'') 100]\<rparr>)))))"
proof -
  let ?st = "initialState\<lparr>savedRepos := [withSavedAt (sampleRepo 7 ''alpha'') 100]\<rparr>"
  note t = toggleSave_twice [of "sampleRepo 7 ''alpha''" 201 200 ?st 301 300 "[]"]
  have h: "distinct (map repo_id (savedRepos ?st))"
    by simp
  have "savedRepos (toggleSave (sampleRepo 7 ''alpha'') 201 200 ?st) =
        (if repo_id (sampleRepo 7 ''alpha'') \<in> repo_id ` set (savedRepos ?st)
         then filter (\<lambda>r. repo_id r \<noteq> repo_id (sampleRepo 7 ''alpha'')) (savedRepos ?st)
         else withSavedAt (sampleRepo 7 ''alpha'') 200 # savedRepos ?st)"
    using t by (rule conjunct1)
  then have o: "savedRepos (toggleSave (sampleRepo 7 ''alpha'') 201 200 ?st) = []"
    by simp
  have "savedRepos (toggleSave (sampleRepo 7 ''alpha'') 301 300
          (toggleSave (sampleRepo 7 ''alpha'') 201 200 ?st)) =
        (if repo_id (sampleRepo 7 ''alpha'') \<in> repo_id ` set (savedRepos ?st)
         then withSavedAt (sampleRepo 7 ''alpha'') 300 #
              filter (\<lambda>r. repo_id r \<noteq> repo_id (sampleRepo 7 ''alpha'')) (savedRepos ?st)
         else savedRepos ?st)"
    using t by (rule conjunct1 [OF conjunct2 [OF conjunct2 [OF conjunct2]]])
  then have e: "savedRepos (toggleSave (sampleRepo 7 ''alpha'') 301 300
          (toggleSave (sampleRepo 7 ''alpha'') 201 200 ?st))
        = [withSavedAt (sampleRepo 7 ''alpha'') 300]"
    by simp
  have "distinct (map repo_id (savedRepos ?st)) \<longrightarrow>
        distinct (map repo_id (savedRepos (toggleSave (sampleRepo 7 ''alpha'') 201 200 ?st)))
        \<and> distinct (map repo_id (savedRepos (toggleSave (sampleRepo 7 ''alpha'') 301 300
                     (toggleSave (sampleRepo 7 ''alpha'') 201 200 ?st))))"
    using t by (rule conjunct2 [OF conjunct2 [OF conjunct2 [OF conjunct2 [OF conjunct2 [OF conjunct2]]]]])
  with h have d: "distinct (map repo_id (savedRepos (toggleSave (sampleRepo 7 ''alpha'') 301 300
                     (toggleSave (sampleRepo 7 ''alpha'') 201 200 ?st))))"
    by blast
  from h o e d show ?thesis
    by (intro conjI)
qed

text \<open>
  Without a proviso on the collection a session starts from, "at most one entry per
  identifier" fails: the load effect installs whatever the stored record parses to, so a
  record that lists repository 7 twice becomes the collection, and a toggle of repository
  8 keeps both entries.
\<close>

theorem saved_collection_repeat_counterexample:
  "loadSavedEffect repeatedRecord (Some ''[r7,r7]'') initialState =
     Inr (initialState\<lparr>savedRepos :=
            [withSavedAt (sampleRepo 7 ''alpha'') 100, withSavedAt (sampleRepo 7 ''alpha'') 150]\<rparr>)
   \<and> map repo_id (savedRepos (toggleSave (sampleRepo 8 ''beta'') 201 200
        (initialState\<lparr>savedRepos :=
            [withSavedAt (sampleRepo 7 ''alpha'') 100, withSavedAt (sampleRepo 7 ''alpha'') 150]\<rparr>)))
       = [8, 7, 7]
   \<and> \<not> distinct (map repo_id (savedRepos (toggleSave (sampleRepo 8 ''beta'') 201 200
        (initialState\<lparr>savedRepos :=
            [withSavedAt (sampleRepo 7 ''alpha'') 100, withSavedAt (sampleRepo 7 ''alpha'') 150]\<rparr>))))"
  by (simp add: loadSavedEffect_def repeatedRecord_def savedRepos_toggleSave sampleRepo_def)

text \<open>
  Claim C5, evaluated on \<^verbatim>\<open>App.tsx\<close>. A stored record that is present, non-empty and
  not parseable makes \<^verbatim>\<open>JSON.parse\<close> throw inside the effect, and nothing catches it:
  the load does not yield the empty sequence, it throws.
\<close>

theorem loadSavedEffect_corrupt_throws:
  "JSON_parse text = None \<Longrightarrow> text \<noteq> [] \<Longrightarrow>
   loadSavedEffect JSON_parse (Some text) st = Inl SyntaxError"
  by (simp add: loadSavedEffect_def)

theorem loadSavedEffect_corrupt_throws_witness:
  "(\<lambda>t. None :: SavedRepo list option) ''{not json'' = None \<and> ''{not json'' \<noteq> []
   \<and> loadSavedEffect (\<lambda>t. None) (Some ''{not json'') initialState = Inl SyntaxError"
  using loadSavedEffect_corrupt_throws [of "\<lambda>t. None" "''{not json''" initialState]
  by simp

text \<open>An absent record, and an empty one, leave the collection as it is.\<close>

lemma loadSavedEffect_absent:
  "loadSavedEffect JSON_parse None st = Inr st"
  "loadSavedEffect JSON_parse (Some []) st = Inr st"
  by (simp_all add: loadSavedEffect_def)

text \<open>
  For comparison: the load effect of the entry-point variant returns a state on every
  stored record, and keeps the collection it had when the record is absent, empty or not
  parseable.
\<close>

lemma loadSavedEffect_entry_fails_soft:
  "stored = None \<or> stored = Some [] \<or> (\<exists>text. stored = Some text \<and> JSON_parse text = None) \<Longrightarrow>
   savedRepos (loadSavedEffect_entry JSON_parse stored st) = savedRepos st"
  by (auto simp: loadSavedEffect_entry_def)

section \<open>Properties of the feed fetcher\<close>

lemmas feed_eval = run_def mount_def issue_def resetEffect_def fetchRepos_start_def
  fetchRepos_resolve_def handleRefresh_def loadMore_def initialState_def addToast_def Let_def

lemma repos_fetchRepos_resolve:
  "repos (fetchRepos_resolve req resp st) =
     (case resp of
        Http status (Json (Some items)) \<Rightarrow>
          if req_pageNum req = 1 then items
          else repos st @ filter (\<lambda>r. repo_id r \<notin> set (map repo_id (repos st))) items
      | _ \<Rightarrow> repos st)"
  by (simp add: fetchRepos_resolve_def Let_def split: Response.splits Body.splits option.splits)

lemma repos_fetchRepos_start: "repos (fst (fetchRepos_start t r p st)) = repos st"
  by (simp add: fetchRepos_start_def)

lemma repos_issue: "repos (app (issue sr p)) = repos (fst sr)"
  by (simp add: issue_def)

lemma step_distinct:
  assumes "distinct (map repo_id (repos (app w)))"
    and "distinct (map repo_id (pageItems ev))"
  shows "distinct (map repo_id (repos (app (step w ev))))"
proof (cases ev)
  case (Resolve i resp)
  show ?thesis
  proof (cases "i < length (inflight w)")
    case True
    with assms Resolve show ?thesis
      by (auto simp: repos_fetchRepos_resolve pageItems_def distinct_map_filter image_iff
               split: Response.splits Body.splits option.splits)
  next
    case False
    with assms Resolve show ?thesis by simp
  qed
next
  case (SetActiveTab t)
  with assms show ?thesis
    by (simp add: repos_issue resetEffect_def repos_fetchRepos_start)
next
  case (SetActiveRange r)
  with assms show ?thesis
    by (simp add: repos_issue resetEffect_def repos_fetchRepos_start)
next
  case (Refresh now)
  with assms show ?thesis
    by (simp add: repos_issue handleRefresh_def Let_def repos_fetchRepos_start addToast_def)
next
  case ScrollToEnd
  with assms show ?thesis
    by (simp add: repos_issue loadMore_def repos_fetchRepos_start)
qed

lemma run_distinct:
  "distinct (map repo_id (repos (app w))) \<Longrightarrow>
   \<forall>ev \<in> set evs. distinct (map repo_id (pageItems ev)) \<Longrightarrow>
   distinct (map repo_id (repos (app (run w evs))))"
  unfolding run_def
  by (induction evs arbitrary: w) (simp_all add: step_distinct)

lemma mount_distinct: "distinct (map repo_id (repos (app mount)))"
  by (simp add: feed_eval)

text \<open>
  Claim C6, as the code has it. Along every run of the component (tab and range changes,
  refreshes, further pages, responses arriving in any order) in which no single response
  repeats an identifier within its own \<^verbatim>\<open>items\<close>, the repository sequence never holds
  an identifier twice, however the pages overlap one another. A page-1 response replaces
  the sequence by its items; a later page appends those of its items whose identifier is
  not in the sequence held before.
\<close>

theorem feed_dedup_across_pages:
  "((\<forall>ev \<in> set evs. distinct (map repo_id (pageItems ev))) \<longrightarrow>
      distinct (map repo_id (repos (app (run mount evs)))))
   \<and> repos (fetchRepos_resolve req (Http status (Json (Some items))) st) =
       (if req_pageNum req = 1 then items
        else repos st @ filter (\<lambda>r. repo_id r \<notin> set (map repo_id (repos st))) items)"
proof
  show "(\<forall>ev \<in> set evs. distinct (map repo_id (pageItems ev))) \<longrightarrow>
          distinct (map repo_id (repos (app (run mount evs))))"
  proof
    assume "\<forall>ev \<in> set evs. distinct (map repo_id (pageItems ev))"
    with mount_distinct show "distinct (map repo_id (repos (app (run mount evs))))"
      by (rule run_distinct)
  qed
  show "repos (fetchRepos_resolve req (Http status (Json (Some items))) st) =
       (if req_pageNum req = 1 then items
        else repos st @ filter (\<lambda>r. repo_id r \<notin> set (map repo_id (repos st))) items)"
    by (simp add: repos_fetchRepos_resolve)
qed

lemma samplePage_length: "length samplePage = 30"
  by (simp add: samplePage_def)

lemma samplePage_ids: "map repo_id samplePage = map int [1..<31]"
  by (simp add: samplePage_def sampleRepo_def comp_def)

lemma sample_run_ids:
  "map repo_id (repos (app (run mount
      [Resolve 0 (Http 200 (Json (Some samplePage))),
       ScrollToEnd,
       Resolve 0 (Http 200 (Json (Some [sampleRepo 30 ''r'', sampleRepo 31 ''s''])))])))
     = map int [1..<31] @ [31]"
proof -
  have in30: "(30::int) \<in> int ` {Suc 0..<31}"
    by (rule image_eqI [of _ _ 30]) simp_all
  have out31: "(31::int) \<notin> int ` {Suc 0..<31}"
    by auto
  show ?thesis
    by (simp add: feed_eval samplePage_length samplePage_ids sampleRepo_def in30 out31)
qed

theorem feed_dedup_across_pages_witness:
  "distinct (map repo_id (pageItems (Resolve 0 (Http 200 (Json (Some samplePage))))))
   \<and> distinct (map repo_id (pageItems
         (Resolve 0 (Http 200 (Json (Some [sampleRepo 30 ''r'', sampleRepo 31 ''s'']))))))
   \<and> distinct (map repo_id (repos (app (run mount
        [Resolve 0 (Http 200 (Json (Some samplePage))),
         ScrollToEnd,
         Resolve 0 (Http 200 (Json (Some [sampleRepo 30 ''r'', sampleRepo 31 ''s''])))]))))
   \<and> map repo_id (repos (app (run mount
        [Resolve 0 (Http 200 (Json (Some samplePage))),
         ScrollToEnd,
         Resolve 0 (Http 200 (Json (Some [sampleRepo 30 ''r'', sampleRepo 31 ''s''])))])))
       = map int [1..<31] @ [31]"
proof -
  have p1: "distinct (map repo_id (pageItems (Resolve 0 (Http 200 (Json (Some samplePage))))))"
    by (simp add: pageItems_def samplePage_ids distinct_map)
  have p2: "distinct (map repo_id (pageItems
              (Resolve 0 (Http 200 (Json (Some [sampleRepo 30 ''r'', sampleRepo 31 ''s'']))))))"
    by (simp add: pageItems_def sampleRepo_def)
  have p3: "distinct (map repo_id (pageItems ScrollToEnd))"
    by (simp add: pageItems_def)
  have h: "\<forall>ev \<in> set
        [Resolve 0 (Http 200 (Json (Some samplePage))),
         ScrollToEnd,
         Resolve 0 (Http 200 (Json (Some [sampleRepo 30 ''r'', sampleRepo 31 ''s''])))].
      distinct (map repo_id (pageItems ev))"
    using p1 p2 p3 by simp
  have d: "distinct (map repo_id (repos (app (run mount
        [Resolve 0 (Http 200 (Json (Some samplePage))),
         ScrollToEnd,
         Resolve 0 (Http 200 (Json (Some [sampleRepo 30 ''r'', sampleRepo 31 ''s''])))]))))"
    using feed_dedup_across_pages
            [of "[Resolve 0 (Http 200 (Json (Some samplePage))),
                  ScrollToEnd,
                  Resolve 0 (Http 200 (Json (Some [sampleRepo 30 ''r'', sampleRepo 31 ''s''])))]"]
          h
    by blast
  from p1 p2 d sample_run_ids show ?thesis
    by (intro conjI)
qed

text \<open>
  Without that proviso the claim fails: a first page that lists the same repository twice
  is stored as it comes.
\<close>

theorem feed_dedup_counterexample:
  "\<not> distinct (map repo_id (repos (app (run mount
       [Resolve 0 (Http 200 (Json (Some [sampleRepo 1 ''alpha'', sampleRepo 1 ''alpha''])))]))))"
  by (simp add: feed_eval sampleRepo_def)

text \<open>
  Claim C1, evaluated on \<^verbatim>\<open>App.tsx\<close>. After the mount the page-1 fetch of the trending
  feed is in flight. The user switches to the latest tab: the sequence is cleared, the
  loading flag is up and a second fetch is issued. Then the response of the first,
  superseded fetch arrives. Its continuation has no staleness check: it stores the trending
  items as the sequence of the latest session, lowers the loading flag and, the page
  holding fewer than 30 items, clears \<^verbatim>\<open>hasMore\<close>, while the fetch of the latest feed is
  still in flight.
\<close>

theorem stale_fetch_overwrites_new_session:
  "inflight (run mount [SetActiveTab Latest]) =
     [\<lparr> req_type = Trending, req_range = Week, req_pageNum = 1 \<rparr>,
      \<lparr> req_type = Latest, req_range = Week, req_pageNum = 1 \<rparr>]
   \<and> activeTab (app (run mount [SetActiveTab Latest])) = Latest
   \<and> repos (app (run mount [SetActiveTab Latest])) = []
   \<and> isLoading (app (run mount [SetActiveTab Latest]))
   \<and> hasMore (app (run mount [SetActiveTab Latest]))
   \<and> run mount [SetActiveTab Latest,
                 Resolve 0 (Http 200 (Json (Some [sampleRepo 1 ''alpha''])))] =
       \<lparr> app = (app (run mount [SetActiveTab Latest]))
                 \<lparr>repos := [sampleRepo 1 ''alpha''], isLoading := False, hasMore := False\<rparr>,
         inflight = [\<lparr> req_type = Latest, req_range = Week, req_pageNum = 1 \<rparr>] \<rparr>"
  by (simp add: feed_eval)

text \<open>
  The same holds after a refresh: the response of the fetch that the refresh superseded
  lowers the loading flag while the new page-1 fetch is still in flight.
\<close>

lemma stale_fetch_after_refresh:
  "run mount [Refresh 5, Resolve 0 (Http 200 (Json (Some [sampleRepo 1 ''alpha''])))] =
     \<lparr> app = (app (run mount [Refresh 5]))
               \<lparr>repos := [sampleRepo 1 ''alpha''], isLoading := False, hasMore := False\<rparr>,
       inflight = [\<lparr> req_type = Trending, req_range = Week, req_pageNum = 1 \<rparr>] \<rparr>
   \<and> isLoading (app (run mount [Refresh 5]))"
  by (simp add: feed_eval)

text \<open>
  In general: whenever a load is shown as pending, the arrival of any response, stale or
  not, changes the state of \<^verbatim>\<open>App.tsx\<close>.
\<close>

lemma stale_resolution_lowers_loading:
  "isLoading st \<Longrightarrow> fetchRepos_resolve req resp st \<noteq> st"
proof
  assume l: "isLoading st" and e: "fetchRepos_resolve req resp st = st"
  have "\<not> isLoading (fetchRepos_resolve req resp st)"
    by (simp add: fetchRepos_resolve_def Let_def)
  with l e show False by simp
qed

text \<open>
  For comparison: in the entry-point variant every pending fetch other than the latest is
  aborted, in every reachable state, and the arrival of the response of an aborted fetch
  changes nothing. So after a change to the trending or latest tab, a change of range or a
  refresh, no fetch issued earlier can alter the state.
\<close>

lemma start_entry_saved [simp]: "fetchRepos_entry_start Saved r p st = (st, None)"
  by (simp add: fetchRepos_entry_start_def)

lemma start_entry_controllers:
  assumes "t \<noteq> Saved"
  shows "requestController (fst (fetchRepos_entry_start t r p st)) = Some (controllersMade st)"
    and "controllersMade (fst (fetchRepos_entry_start t r p st)) = Suc (controllersMade st)"
    and "abortedControllers (fst (fetchRepos_entry_start t r p st)) =
           (case requestController st of None \<Rightarrow> abortedControllers st
            | Some c \<Rightarrow> c # abortedControllers st)"
    and "\<exists>req. snd (fetchRepos_entry_start t r p st) = Some req \<and> req_controller req = controllersMade st"
  using assms
  by (simp_all add: fetchRepos_entry_start_def Let_def split: option.splits)

lemma start_entry_preserves:
  assumes inv: "superseded_aborted \<lparr> entry_app = st0, entry_inflight = pending \<rparr>"
    and same: "requestController st = requestController st0"
              "abortedControllers st = abortedControllers st0"
              "controllersMade st = controllersMade st0"
  shows "superseded_aborted (issue_entry (fetchRepos_entry_start t r p st) pending)"
proof (cases "t = Saved")
  case True
  with inv same show ?thesis
    by (simp add: issue_entry_def superseded_aborted_def)
next
  case False
  obtain req where req: "snd (fetchRepos_entry_start t r p st) = Some req"
      and ctl: "req_controller req = controllersMade st"
    using start_entry_controllers(4) [OF False] by blast
  have old: "list_all (\<lambda>q. req_controller q < controllersMade st0
                \<and> (requestController st0 = Some (req_controller q)
                    \<or> req_controller q \<in> set (abortedControllers st0))) pending"
    using inv by (simp add: superseded_aborted_def)
  have "list_all (\<lambda>q. req_controller q < Suc (controllersMade st)
                \<and> (Some (controllersMade st) = Some (req_controller q)
                    \<or> req_controller q \<in> set (case requestController st of
                                                None \<Rightarrow> abortedControllers st
                                              | Some c \<Rightarrow> c # abortedControllers st))) pending"
    using old same by (auto simp: list_all_iff split: option.splits)
  then show ?thesis
    using req ctl
    by (simp add: issue_entry_def superseded_aborted_def start_entry_controllers [OF False])
qed

lemma resolve_entry_controllers [simp]:
  "requestController (fetchRepos_entry_resolve req resp thrown now st) = requestController st"
  "abortedControllers (fetchRepos_entry_resolve req resp thrown now st) = abortedControllers st"
  "controllersMade (fetchRepos_entry_resolve req resp thrown now st) = controllersMade st"
  by (simp_all add: fetchRepos_entry_resolve_def Let_def split: Response.splits Body.splits option.splits)

lemma step_entry_preserves:
  assumes "superseded_aborted w"
  shows "superseded_aborted (step_entry w ev)"
proof -
  have w: "superseded_aborted \<lparr> entry_app = entry_app w, entry_inflight = entry_inflight w \<rparr>"
    using assms by (simp add: superseded_aborted_def)
  show ?thesis
  proof (cases ev)
    case (EntrySetActiveTab t)
    have "superseded_aborted (issue_entry (resetEffect_entry ((entry_app w)\<lparr>activeTab := t\<rparr>)) (entry_inflight w))"
      unfolding resetEffect_entry_def by (rule start_entry_preserves [OF w]) simp_all
    then have "superseded_aborted
        ((issue_entry (resetEffect_entry ((entry_app w)\<lparr>activeTab := t\<rparr>)) (entry_inflight w))
           \<lparr>entry_app := (entry_app (issue_entry (resetEffect_entry ((entry_app w)\<lparr>activeTab := t\<rparr>)) (entry_inflight w)))
               \<lparr>errorMessage := None\<rparr>\<rparr>)"
      by (simp add: superseded_aborted_def)
    with \<open>superseded_aborted (issue_entry (resetEffect_entry ((entry_app w)\<lparr>activeTab := t\<rparr>)) (entry_inflight w))\<close>
      assms EntrySetActiveTab show ?thesis
      by (cases "t = Saved") (auto simp add: Let_def)
  next
    case (EntrySetActiveRange r)
    have "superseded_aborted (issue_entry (resetEffect_entry ((entry_app w)\<lparr>activeRange := r\<rparr>)) (entry_inflight w))"
      unfolding resetEffect_entry_def by (rule start_entry_preserves [OF w]) simp_all
    with assms EntrySetActiveRange show ?thesis by simp
  next
    case (EntryRefresh now)
    have "superseded_aborted (issue_entry (fetchRepos_entry_start (activeTab (entry_app w)) (activeRange (entry_app w)) 1
             ((entry_app w)\<lparr>page := 1, hasMore := True, repos := [], aiFilteredIds := None\<rparr>)) (entry_inflight w))"
      by (rule start_entry_preserves [OF w]) simp_all
    then show ?thesis
      using EntryRefresh
      by (simp add: handleRefresh_entry_def Let_def issue_entry_def superseded_aborted_def)
  next
    case EntryScrollToEnd
    have "superseded_aborted (issue_entry (fetchRepos_entry_start (activeTab (entry_app w)) (activeRange (entry_app w))
             (page (entry_app w) + 1) ((entry_app w)\<lparr>page := page (entry_app w) + 1\<rparr>)) (entry_inflight w))"
      by (rule start_entry_preserves [OF w]) simp_all
    moreover have "superseded_aborted (issue_entry (entry_app w, None) (entry_inflight w))"
      using assms by (simp add: issue_entry_def superseded_aborted_def)
    ultimately show ?thesis
      using EntryScrollToEnd by (simp add: loadMore_entry_def)
  next
    case (EntryResolve i resp thrown now)
    show ?thesis
    proof (cases "i < length (entry_inflight w)")
      case True
      have "set (take i (entry_inflight w) @ drop (Suc i) (entry_inflight w)) \<subseteq> set (entry_inflight w)"
        using set_take_subset set_drop_subset by fastforce
      with assms True EntryResolve show ?thesis
        by (auto simp: superseded_aborted_def list_all_iff)
    next
      case False
      with assms EntryResolve show ?thesis by simp
    qed
  qed
qed

lemma mount_entry_inv: "superseded_aborted mount_entry"
  by (simp add: mount_entry_def issue_entry_def resetEffect_entry_def fetchRepos_entry_start_def
                initialEntryState_def initialState_def superseded_aborted_def Let_def
                AppState.defs EntryState.defs)

lemma run_entry_inv: "superseded_aborted w \<Longrightarrow> superseded_aborted (run_entry w evs)"
  unfolding run_entry_def
  by (induction evs arbitrary: w) (simp_all add: step_entry_preserves)

lemma entry_stale_resolution_is_noop:
  assumes "i < length (entry_inflight (run_entry mount_entry evs))"
    and "requestController (entry_app (run_entry mount_entry evs))
           \<noteq> Some (req_controller (entry_inflight (run_entry mount_entry evs) ! i))"
  shows "entry_app (step_entry (run_entry mount_entry evs) (EntryResolve i resp thrown now))
           = entry_app (run_entry mount_entry evs)"
proof -
  let ?w = "run_entry mount_entry evs"
  have "superseded_aborted ?w"
    by (rule run_entry_inv [OF mount_entry_inv])
  then have "req_controller (entry_inflight ?w ! i) \<in> set (abortedControllers (entry_app ?w))"
    using assms by (auto simp: superseded_aborted_def list_all_length)
  then show ?thesis
    using assms(1) by (simp add: fetchRepos_entry_resolve_def)
qed

lemma supersedes_step:
  assumes "supersedes w ev"
  shows "requestController (entry_app (step_entry w ev)) = Some (controllersMade (entry_app w))
       \<and> (\<exists>req. entry_inflight (step_entry w ev) = entry_inflight w @ [req])"
proof (cases ev)
  case (EntrySetActiveTab t)
  with assms have t: "t \<noteq> Saved" "t \<noteq> activeTab (entry_app w)"
    by (simp_all add: supersedes_def)
  then show ?thesis
    using EntrySetActiveTab
    by (simp add: Let_def issue_entry_def resetEffect_entry_def fetchRepos_entry_start_def
             split: option.splits)
next
  case (EntrySetActiveRange r)
  with assms have t: "activeTab (entry_app w) \<noteq> Saved" "r \<noteq> activeRange (entry_app w)"
    by (simp_all add: supersedes_def)
  then show ?thesis
    using EntrySetActiveRange
    by (simp add: Let_def issue_entry_def resetEffect_entry_def fetchRepos_entry_start_def
             split: option.splits)
next
  case (EntryRefresh now)
  with assms have t: "activeTab (entry_app w) \<noteq> Saved"
    by (simp add: supersedes_def)
  then show ?thesis
    using EntryRefresh
    by (simp add: Let_def issue_entry_def handleRefresh_entry_def fetchRepos_entry_start_def
             split: option.splits)
next
  case EntryScrollToEnd
  with assms show ?thesis by (simp add: supersedes_def)
next
  case (EntryResolve i resp thrown now)
  with assms show ?thesis by (simp add: supersedes_def)
qed

lemma entry_superseded_fetch_discarded:
  assumes "supersedes (run_entry mount_entry evs) ev"
    and "i < length (entry_inflight (run_entry mount_entry evs))"
  shows "entry_app (run_entry mount_entry (evs @ [ev, EntryResolve i resp thrown now]))
           = entry_app (run_entry mount_entry (evs @ [ev]))"
proof -
  let ?w = "run_entry mount_entry evs"
  let ?w' = "run_entry mount_entry (evs @ [ev])"
  have w': "?w' = step_entry ?w ev"
    by (simp add: run_entry_def)
  obtain req where cur: "requestController (entry_app ?w') = Some (controllersMade (entry_app ?w))"
      and infl: "entry_inflight ?w' = entry_inflight ?w @ [req]"
    using supersedes_step [OF assms(1)] w' by auto
  have "superseded_aborted ?w"
    by (rule run_entry_inv [OF mount_entry_inv])
  then have old: "req_controller (entry_inflight ?w ! i) < controllersMade (entry_app ?w)"
    using assms(2) by (simp add: superseded_aborted_def list_all_length)
  have i': "i < length (entry_inflight ?w')"
    using assms(2) infl by simp
  have same: "entry_inflight ?w' ! i = entry_inflight ?w ! i"
    using assms(2) infl by (simp add: nth_append)
  have "requestController (entry_app ?w') \<noteq> Some (req_controller (entry_inflight ?w' ! i))"
    using cur old same by simp
  from entry_stale_resolution_is_noop [OF i' this]
  have "entry_app (step_entry ?w' (EntryResolve i resp thrown now)) = entry_app ?w'" .
  moreover have "run_entry mount_entry (evs @ [ev, EntryResolve i resp thrown now])
                   = step_entry ?w' (EntryResolve i resp thrown now)"
    by (simp add: run_entry_def)
  ultimately show ?thesis
    by simp
qed

text \<open>
  Claim C4, evaluated on \<^verbatim>\<open>App.tsx\<close>. The continuation of a fetch never reads the HTTP
  status, so a 403 leaves exactly the state any other status with the same body leaves.
  A rate-limited first load (status 403, a JSON body without \<^verbatim>\<open>items\<close>) ends in the
  initial state with \<^verbatim>\<open>hasMore\<close> cleared: no message, no toast, nothing on the console.
\<close>

theorem rate_limit_not_distinguished:
  "fetchRepos_resolve req (Http 403 body) st = fetchRepos_resolve req (Http status body) st
   \<and> run mount [Resolve 0 (Http 403 (Json None))] =
       \<lparr> app = initialState\<lparr>hasMore := False\<rparr>, inflight = [] \<rparr>"
  by (simp add: feed_eval)

text \<open>
  What does hold on failure: a network failure, a body that is not JSON, a null body and a
  JSON body without \<^verbatim>\<open>items\<close> all clear \<^verbatim>\<open>hasMore\<close> and both loading flags, and a refresh
  issues page 1 again.
\<close>

lemma fetchRepos_resolve_failure:
  "resp = NetworkFailure \<or> resp = Http status NotJson \<or> resp = Http status JsonNull
     \<or> resp = Http status (Json None) \<Longrightarrow>
   \<not> hasMore (fetchRepos_resolve req resp st)
   \<and> \<not> isLoading (fetchRepos_resolve req resp st)
   \<and> \<not> isFetchingMore (fetchRepos_resolve req resp st)"
  by (auto simp: fetchRepos_resolve_def Let_def)

lemma refresh_after_failure:
  "activeTab st \<noteq> Saved \<Longrightarrow>
   snd (handleRefresh now (fetchRepos_resolve req resp st)) =
     Some \<lparr> req_type = activeTab st, req_range = activeRange st, req_pageNum = 1 \<rparr>"
  by (simp add: handleRefresh_def fetchRepos_start_def fetchRepos_resolve_def Let_def
           split: Response.splits Body.splits option.splits)

text \<open>
  For comparison: the entry-point variant records a message for status 403 that differs
  from the one for any other failing status.
\<close>

lemma entry_rate_limit_distinguished:
  assumes "req_controller req \<notin> set (abortedControllers st)"
  shows "errorMessage (fetchRepos_entry_resolve req (Http 403 body) thrown now st)
           = Some ''GitHub API rate limit hit. Please wait a bit or add an authenticated proxy.''"
    and "errorMessage (fetchRepos_entry_resolve req (Http 500 body) thrown now st)
           = Some ''GitHub API error (500).''"
    and "\<not> hasMore (fetchRepos_entry_resolve req (Http 403 body) thrown now st)"
  using assms
  by (simp_all add: fetchRepos_entry_resolve_def Let_def showNat.simps digitChar_def)

text \<open>
  The state right after a change to the trending or the latest tab, and after a change of
  range on either, and the arrival of the page-1 response issued by the change.
\<close>

lemma reset_on_feed_tab_change:
  "t \<noteq> Saved \<Longrightarrow> t \<noteq> activeTab (app w) \<Longrightarrow>
   step w (SetActiveTab t) =
     \<lparr> app = (app w)\<lparr>activeTab := t, page := 1, hasMore := True, repos := [],
                      isLoading := True, aiFilteredIds := None\<rparr>,
       inflight = inflight w @
         [\<lparr> req_type = t, req_range = activeRange (app w), req_pageNum = 1 \<rparr>] \<rparr>"
  by (simp add: feed_eval)

lemma reset_on_range_change:
  "activeTab (app w) \<noteq> Saved \<Longrightarrow> r \<noteq> activeRange (app w) \<Longrightarrow>
   step w (SetActiveRange r) =
     \<lparr> app = (app w)\<lparr>activeRange := r, page := 1, hasMore := True, repos := [],
                      isLoading := True, aiFilteredIds := None\<rparr>,
       inflight = inflight w @
         [\<lparr> req_type = activeTab (app w), req_range = r, req_pageNum = 1 \<rparr>] \<rparr>"
  by (simp add: feed_eval)

lemma page1_lands:
  "repos (app (step \<lparr> app = st, inflight = pending @ [\<lparr> req_type = t, req_range = r, req_pageNum = 1 \<rparr>] \<rparr>
                     (Resolve (length pending) (Http status (Json (Some items))))))
     = items"
  by (simp add: repos_fetchRepos_resolve nth_append)

text \<open>
  Claim C8. A feed session is a category, trending or latest, with a range. Every change
  to another category, from any tab, and every change of range within a category, sets
  the page to 1, empties the repository sequence and sets the smart-filter result to null,
  with the page-1 fetch of the new session issued and still in flight; the sequence stays
  empty until a response lands, and when the new page-1 response lands, its items become
  the sequence.
\<close>

theorem reset_on_session_change:
  "(t \<noteq> Saved \<and> t \<noteq> activeTab (app w) \<longrightarrow>
      activeTab (app (step w (SetActiveTab t))) = t
      \<and> page (app (step w (SetActiveTab t))) = 1
      \<and> repos (app (step w (SetActiveTab t))) = []
      \<and> aiFilteredIds (app (step w (SetActiveTab t))) = None
      \<and> inflight (step w (SetActiveTab t)) = inflight w @
           [\<lparr> req_type = t, req_range = activeRange (app w), req_pageNum = 1 \<rparr>]
      \<and> repos (app (step (step w (SetActiveTab t))
                  (Resolve (length (inflight w)) (Http status (Json (Some items)))))) = items)
   \<and> (activeTab (app w) \<noteq> Saved \<and> r \<noteq> activeRange (app w) \<longrightarrow>
      activeRange (app (step w (SetActiveRange r))) = r
      \<and> page (app (step w (SetActiveRange r))) = 1
      \<and> repos (app (step w (SetActiveRange r))) = []
      \<and> aiFilteredIds (app (step w (SetActiveRange r))) = None
      \<and> inflight (step w (SetActiveRange r)) = inflight w @
           [\<lparr> req_type = activeTab (app w), req_range = r, req_pageNum = 1 \<rparr>]
      \<and> repos (app (step (step w (SetActiveRange r))
                  (Resolve (length (inflight w)) (Http status (Json (Some items)))))) = items)"
proof (intro conjI impI)
  assume h: "t \<noteq> Saved \<and> t \<noteq> activeTab (app w)"
  have e: "step w (SetActiveTab t) =
     \<lparr> app = (app w)\<lparr>activeTab := t, page := 1, hasMore := True, repos := [],
                      isLoading := True, aiFilteredIds := None\<rparr>,
       inflight = inflight w @
         [\<lparr> req_type = t, req_range = activeRange (app w), req_pageNum = 1 \<rparr>] \<rparr>"
    using reset_on_feed_tab_change [of t w] h by blast
  show "activeTab (app (step w (SetActiveTab t))) = t"
    and "page (app (step w (SetActiveTab t))) = 1"
    and "repos (app (step w (SetActiveTab t))) = []"
    and "aiFilteredIds (app (step w (SetActiveTab t))) = None"
    and "inflight (step w (SetActiveTab t)) = inflight w @
           [\<lparr> req_type = t, req_range = activeRange (app w), req_pageNum = 1 \<rparr>]"
    unfolding e by simp_all
  show "repos (app (step (step w (SetActiveTab t))
                  (Resolve (length (inflight w)) (Http status (Json (Some items)))))) = items"
    unfolding e by (rule page1_lands)
next
  assume h: "activeTab (app w) \<noteq> Saved \<and> r \<noteq> activeRange (app w)"
  have e: "step w (SetActiveRange r) =
     \<lparr> app = (app w)\<lparr>activeRange := r, page := 1, hasMore := True, repos := [],
                      isLoading := True, aiFilteredIds := None\<rparr>,
       inflight = inflight w @
         [\<lparr> req_type = activeTab (app w), req_range = r, req_pageNum = 1 \<rparr>] \<rparr>"
    using reset_on_range_change [of w r] h by blast
  show "activeRange (app (step w (SetActiveRange r))) = r"
    and "page (app (step w (SetActiveRange r))) = 1"
    and "repos (app (step w (SetActiveRange r))) = []"
    and "aiFilteredIds (app (step w (SetActiveRange r))) = None"
    and "inflight (step w (SetActiveRange r)) = inflight w @
           [\<lparr> req_type = activeTab (app w), req_range = r, req_pageNum = 1 \<rparr>]"
    unfolding e by simp_all
  show "repos (app (step (step w (SetActiveRange r))
                  (Resolve (length (inflight w)) (Http status (Json (Some items)))))) = items"
    unfolding e by (rule page1_lands)
qed

theorem reset_on_session_change_witness:
  "Latest \<noteq> Saved \<and> Latest \<noteq> activeTab (app filteredFeed)
   \<and> page (app filteredFeed) = 3
   \<and> repos (app filteredFeed) = [sampleRepo 101 ''alpha'']
   \<and> aiFilteredIds (app filteredFeed) = Some [101]
   \<and> page (app (step filteredFeed (SetActiveTab Latest))) = 1
   \<and> repos (app (step filteredFeed (SetActiveTab Latest))) = []
   \<and> aiFilteredIds (app (step filteredFeed (SetActiveTab Latest))) = None
   \<and> activeTab (app filteredFeed) \<noteq> Saved \<and> Month \<noteq> activeRange (app filteredFeed)
   \<and> page (app (step filteredFeed (SetActiveRange Month))) = 1
   \<and> repos (app (step filteredFeed (SetActiveRange Month))) = []
   \<and> aiFilteredIds (app (step filteredFeed (SetActiveRange Month))) = None"
proof -
  note t = reset_on_session_change [of Latest filteredFeed _ _ Month]
  have h1: "Latest \<noteq> Saved \<and> Latest \<noteq> activeTab (app filteredFeed)"
    by (simp add: filteredFeed_def initialState_def)
  have h2: "activeTab (app filteredFeed) \<noteq> Saved \<and> Month \<noteq> activeRange (app filteredFeed)"
    by (simp add: filteredFeed_def initialState_def)
  have before: "page (app filteredFeed) = 3"
    "repos (app filteredFeed) = [sampleRepo 101 ''alpha'']"
    "aiFilteredIds (app filteredFeed) = Some [101]"
    by (simp_all add: filteredFeed_def)
  from t h1 have a: "page (app (step filteredFeed (SetActiveTab Latest))) = 1"
    "repos (app (step filteredFeed (SetActiveTab Latest))) = []"
    "aiFilteredIds (app (step filteredFeed (SetActiveTab Latest))) = None"
    by blast+
  from t h2 have b: "page (app (step filteredFeed (SetActiveRange Month))) = 1"
    "repos (app (step filteredFeed (SetActiveRange Month))) = []"
    "aiFilteredIds (app (step filteredFeed (SetActiveRange Month))) = None"
    by blast+
  from h1 h2 before a b show ?thesis
    by (intro conjI) simp_all
qed

text \<open>
  The saved tab is no category of the feed and starts no fetch. A switch to it runs the
  same effect, which resets the page and the sequence; the smart-filter result is cleared
  inside \<^verbatim>\<open>fetchRepos\<close>, after the early return for the saved tab, and so stays as it
  is. From page 3 of a feed filtered down to repository 101, the saved tab opens with the
  filter still set, and a saved repository 7 is hidden by it.
\<close>

lemma saved_tab_keeps_smart_filter:
  "aiFilteredIds (app (step \<lparr> app = st\<lparr>aiFilteredIds := Some ids\<rparr>, inflight = pending \<rparr>
                        (SetActiveTab Saved))) = Some ids
   \<and> step \<lparr> app = initialState\<lparr>repos := [sampleRepo 101 ''alpha''], page := 3,
                                 aiFilteredIds := Some [101]\<rparr>,
            inflight = [] \<rparr> (SetActiveTab Saved)
       = \<lparr> app = initialState\<lparr>activeTab := Saved, repos := [], page := 1,
                                aiFilteredIds := Some [101]\<rparr>,
           inflight = [] \<rparr>
   \<and> filteredRepos Saved [] [withSavedAt (sampleRepo 7 ''beta'') 100] [] (Some [101]) False False
       = []"
  by (simp add: feed_eval filteredRepos_def asGithubRepo_def withSavedAt_def sampleRepo_def
                GithubRepo.defs SavedRepo.defs)

text \<open>A smart filter that settles stores the identifiers as returned.\<close>

lemma runSmartFilter_settle_ids:
  "aiFilteredIds (runSmartFilter_settle (Identifiers matchedIds) now st) = Some matchedIds"
  by (simp add: runSmartFilter_settle_def addToast_def Let_def)

section \<open>Properties of the enrichment lookups\<close>

text \<open>
  Claim C9, as the code has it. Enrichment lookups are not joined: two requests for the
  same repository, the second made while the first is still pending, issue two AI requests
  for its identifier, and two such requests for the same owner and name issue two language
  requests.
\<close>

theorem enrichment_called_per_mount:
  "insightCalls (snd (AIInsight_fetchInsight repo
                        (c2, snd (AIInsight_fetchInsight repo (c1, net)))))
     = insightCalls net @ [repo_id repo, repo_id repo]
   \<and> languageCalls (RepoLanguages_fetchLanguages ownerLogin repoName
                       (RepoLanguages_fetchLanguages ownerLogin repoName net))
     = languageCalls net @ [(ownerLogin, repoName), (ownerLogin, repoName)]"
  by (simp add: AIInsight_fetchInsight_def RepoLanguages_fetchLanguages_def)

text \<open>
  The claim of a single network call fails: two cards that show repository 7 at the same
  time, on an idle network, leave two AI requests for the key 7, not one.
\<close>

theorem enrichment_single_flight_counterexample:
  "length (filter (\<lambda>k. k = 7)
     (insightCalls (snd (AIInsight_fetchInsight (sampleRepo 7 ''alpha'')
        (\<lparr> insight = None, loading = False \<rparr>,
         snd (AIInsight_fetchInsight (sampleRepo 7 ''alpha'')
                (\<lparr> insight = None, loading = False \<rparr>, idleNetwork))))))) \<noteq> 1"
  by (simp add: AIInsight_fetchInsight_def idleNetwork_def sampleRepo_def)

text \<open>
  For comparison: the entry-point variant answers a key that has settled from its table,
  without a network call, and like \<^verbatim>\<open>App.tsx\<close> it does not join two requests for a key
  that has not settled yet.
\<close>

lemma entry_insight_memoized:
  assumes "repo_id repo' = repo_id repo"
  shows "insightCalls (snd (AIInsight_entry_fetchInsight apiKey repo'
            (c', snd (AIInsight_entry_settle repo (Some text) cn))))
         = insightCalls (snd cn)"
  using assms
  by (simp add: AIInsight_entry_fetchInsight_def AIInsight_entry_settle_def Let_def)

lemma entry_insight_not_joined:
  assumes "aiInsightCache net (repo_id repo) = None" and "apiKey = Some k" and "k \<noteq> []"
  shows "insightCalls (snd (AIInsight_entry_fetchInsight apiKey repo
            (c2, snd (AIInsight_entry_fetchInsight apiKey repo (c1, net)))))
         = insightCalls net @ [repo_id repo, repo_id repo]"
  using assms
  by (simp add: AIInsight_entry_fetchInsight_def Let_def)

lemma entry_languages_memoized:
  "languageCalls (snd (RepoLanguages_entry_loadLanguages ownerLogin repoName
      (c', snd (RepoLanguages_entry_settle ownerLogin repoName (Some data) cn))))
   = languageCalls (snd cn)"
  by (simp add: RepoLanguages_entry_loadLanguages_def RepoLanguages_entry_settle_def)

end
